theory Spec2Isabelle
  imports Complex_Main "HOL-Library.Char_ord" "HOL-Library.List_Lexorder"
begin

section \<open>Data model of the VCS equilibrium solver (vcs\_solve.cpp)\<close>

text \<open>
  Conventions of the embedding.
  \<^item> A C++ \<^verbatim>\<open>double\<close> is a \<^typ>\<open>real\<close>: rounding, infinities and NaN are not modelled.
    Comparisons against constants (\<^verbatim>\<open>> 0.0\<close>, \<^verbatim>\<open>!= 0.0\<close>, \<^verbatim>\<open>fabs(x) > 1.0E-9\<close>) are the
    source's comparisons.
  \<^item> A \<^verbatim>\<open>size_t\<close> is a \<^typ>\<open>nat\<close> below \<open>2 ^ 64\<close>; the one subtraction of two such
    values is written with its wrap-around (\<open>size_t_sub\<close>).
  \<^item> A \<^verbatim>\<open>std::vector\<close> is a list, written by index with \<open>xs[i := v]\<close>; the theorems
    state the vector lengths they rely on (an out-of-range access is undefined in C++).
  \<^item> An \<^verbatim>\<open>Array2D\<close> is a function from row and column to the entry.
  \<^item> A thrown \<^verbatim>\<open>CanteraError\<close> is the \<open>Inl\<close> branch of a sum.
\<close>

definition size_t_sub :: "nat \<Rightarrow> nat \<Rightarrow> nat" where
  "size_t_sub a b = (a + 2 ^ 64 - b) mod 2 ^ 64"

text \<open>
  The tags of vcs\_defs.h (not part of the sources at hand) as datatypes; the last
  constructor of each stands for any other integer value of the tag.
\<close>

datatype species_unknown =
    VCS_SPECIES_TYPE_MOLNUM
  | VCS_SPECIES_TYPE_INTERFACIALVOLTAGE
  | VCS_SPECIES_TYPE_OTHER int

datatype elem_type =
    VCS_ELEM_TYPE_ABSPOS
  | VCS_ELEM_TYPE_ELECTRONCHARGE
  | VCS_ELEM_TYPE_CHARGENEUTRALITY
  | VCS_ELEM_TYPE_LATTICERATIO
  | VCS_ELEM_TYPE_OTHER int

datatype CanteraError =
    ElemAbundancesNotSpecified
  | BadPhaseID nat nat
  | PhaseSpeciesCountMismatch nat
  | PhaseIDNotDefined
  | ChargeNeutralityNonzero nat real
  | ZeroFormulaMatrix nat
  | UnknownSpeciesType species_unknown
  | InconsistentVoltage real real
  | InconsistentMoleFraction real real
  | InconsistentTotalMoles real real
  | PhaseAdapterError

datatype phase_exist =
    VCS_PHASE_EXIST_ALWAYS
  | VCS_PHASE_EXIST_YES
  | VCS_PHASE_EXIST_NO
  | VCS_PHASE_EXIST_ZEROEDPHASE

text \<open>
  The phase adapter \<^verbatim>\<open>vcs_VolPhase\<close>: one field for each accessor that vcs\_solve.cpp
  calls (\<^verbatim>\<open>nSpecies()\<close>, \<^verbatim>\<open>phiVarIndex()\<close>, \<^verbatim>\<open>totalMoles()\<close>, \<^verbatim>\<open>totalMolesInert()\<close>,
  \<^verbatim>\<open>electricPotential()\<close>, \<^verbatim>\<open>moleFractions()\<close>, \<^verbatim>\<open>spGlobalIndexVCS(k)\<close>,
  \<^verbatim>\<open>speciesUnknownType(k)\<close>, \<^verbatim>\<open>exists()\<close>).
\<close>

record vcs_VolPhase =
  nSpecies :: nat
  phiVarIndex :: nat
  totalMoles :: real
  totalMolesInert :: real
  electricPotential :: real
  moleFractions :: "real list"
  spGlobalIndexVCS :: "nat list"
  speciesUnknownType :: "species_unknown list"
  existence :: phase_exist

text \<open>
  Modelled from the spec: the setters of \<^verbatim>\<open>vcs_VolPhase\<close> (vcs\_VolPhase.cpp is not among
  the sources). The spec lists \<open>existence\<close>, \<open>totalMoles\<close>, \<open>totalMolesInert\<close> and
  \<open>electricPotential\<close> as attributes of a phase; each setter stores its argument in
  the attribute it names.
\<close>

definition setExistence :: "phase_exist \<Rightarrow> vcs_VolPhase \<Rightarrow> vcs_VolPhase" where
  "setExistence e p = p\<lparr>existence := e\<rparr>"

definition setTotalMolesInert :: "real \<Rightarrow> vcs_VolPhase \<Rightarrow> vcs_VolPhase" where
  "setTotalMolesInert x p = p\<lparr>totalMolesInert := x\<rparr>"

definition setTotalMoles :: "real \<Rightarrow> vcs_VolPhase \<Rightarrow> vcs_VolPhase" where
  "setTotalMoles x p = p\<lparr>totalMoles := x\<rparr>"

definition setElectricPotential :: "real \<Rightarrow> vcs_VolPhase \<Rightarrow> vcs_VolPhase" where
  "setElectricPotential x p = p\<lparr>electricPotential := x\<rparr>"

text \<open>
  The external objects the solver reads: a \<^verbatim>\<open>ThermoPhase\<close> delivers its species count,
  the chemical potentials \<^verbatim>\<open>getChemPotentials\<close> fills in at the mixture's temperature
  and pressure, and its electric potential; the \<^verbatim>\<open>MultiPhase\<close> mixture delivers its
  state, its phases and the global species moles and mole fractions.
\<close>

record ThermoPhase =
  tp_nSpecies :: nat
  tp_chemPotentials :: "real list"
  tp_electricPotential :: real

record MultiPhase =
  mp_temperature :: real
  mp_pressure :: real
  mp_volume :: real
  mp_phases :: "ThermoPhase list"
  mp_speciesMoles :: "real list"
  mp_moleFraction :: "real list"

record VCS_SOLVE =
  m_mix :: MultiPhase
  m_nsp :: nat
  m_nelem :: nat
  m_numPhases :: nat
  m_numRxnTot :: nat
  m_numSpeciesRdc :: nat
  m_numRxnRdc :: nat
  m_numRxnMinorZeroed :: nat
  m_doEstimateEquil :: int
  m_temperature :: real
  m_pressurePA :: real
  m_totalVol :: real
  vcs_debug_print_lvl :: int
  m_debug_print_lvl :: int
  m_timing_print_lvl :: int
  w :: "real list"
  mf :: "real list"
  gai :: "real list"
  m_gibbsSpecies :: "real list"
  SpeciesUnknownType :: "species_unknown list"
  PhaseID :: "nat list"
  FormulaMatrix :: "nat \<Rightarrow> nat \<Rightarrow> real"
  m_formulaMatrix :: "nat \<Rightarrow> nat \<Rightarrow> real"
  TPhInertMoles :: "real list"
  m_molNumSpecies_old :: "real list"
  m_feSpecies_old :: "real list"
  m_speciesUnknownType :: "species_unknown list"
  m_elType :: "elem_type list"
  m_elemAbundancesGoal :: "real list"
  m_speciesMapIndex :: "nat list"
  m_elementMapIndex :: "nat list"
  m_phaseID :: "nat list"
  m_speciesLocalPhaseIndex :: "nat list"
  VPhaseList :: "vcs_VolPhase list"
  m_VolPhaseList :: "vcs_VolPhase list"

section \<open>The process-wide timing switch\<close>

text \<open>
  \<^verbatim>\<open>int vcs_timing_print_lvl = 1;\<close> is a global of the translation unit. A process is
  that global together with the \<^verbatim>\<open>m_timing_print_lvl\<close> member of every solver instance
  alive, in order of construction.
\<close>

record process =
  vcs_timing_print_lvl :: int
  instances :: "int list"

definition initial_process :: process where
  "initial_process = \<lparr>vcs_timing_print_lvl = 1, instances = []\<rparr>"

text \<open>
  The constructor initialises \<^verbatim>\<open>m_timing_print_lvl(1)\<close> and then runs
  \<^verbatim>\<open>if (vcs_timing_print_lvl == 0) { m_timing_print_lvl = 0; }\<close>.
\<close>

definition ctor_timing_print_lvl :: "int \<Rightarrow> int" where
  "ctor_timing_print_lvl g = (if g = 0 then 0 else 1)"

definition construct :: "process \<Rightarrow> process" where
  "construct p =
     p\<lparr>instances := instances p @ [ctor_timing_print_lvl (vcs_timing_print_lvl p)]\<rparr>"

definition disableTiming :: "process \<Rightarrow> process" where
  "disableTiming p = p\<lparr>vcs_timing_print_lvl := 0\<rparr>"

text \<open>
  \<^verbatim>\<open>vcs()\<close> only reads the instance's level
  (\<^verbatim>\<open>vcs_TCounters_report(m_timing_print_lvl)\<close>), so a solve leaves both untouched.
\<close>

datatype event = Construct | DisableTiming | Solve nat

fun step :: "process \<Rightarrow> event \<Rightarrow> process" where
  "step p Construct = construct p"
| "step p DisableTiming = disableTiming p"
| "step p (Solve i) = p"

definition run :: "event list \<Rightarrow> process \<Rightarrow> process" where
  "run es p = foldl step p es"

section \<open>vcs\_prob\_specifyFully\<close>

text \<open>
  \<^verbatim>\<open>invSpecies[m_speciesMapIndex[k]] = k\<close> for \<open>k < m_nsp\<close>, on a vector of \<open>m_nsp\<close>
  zero-initialised entries.
\<close>

definition invSpecies_of :: "nat \<Rightarrow> nat list \<Rightarrow> nat list" where
  "invSpecies_of nsp smi =
     fold (\<lambda>k inv. inv[smi ! k := k]) [0..<nsp] (replicate nsp 0)"

text \<open>The existence decision of one phase, as the three-way branch is written.\<close>

definition specify_existence :: "nat \<Rightarrow> vcs_VolPhase \<Rightarrow> vcs_VolPhase" where
  "specify_existence nSpPhase volPhase =
     (if nSpPhase = 1 \<and> phiVarIndex volPhase = 0
        then setExistence VCS_PHASE_EXIST_ALWAYS volPhase
      else if totalMoles volPhase > 0
        then setExistence VCS_PHASE_EXIST_YES volPhase
      else setExistence VCS_PHASE_EXIST_NO volPhase)"

text \<open>
  One round of the loop over the phases; the loop state is the running species counter
  \<open>kT\<close>, \<^verbatim>\<open>m_gibbsSpecies\<close> and the phases of \<^verbatim>\<open>VPhaseList\<close>.
\<close>

definition specify_phase ::
  "MultiPhase \<Rightarrow> nat list \<Rightarrow> nat \<Rightarrow> nat \<times> real list \<times> vcs_VolPhase list
     \<Rightarrow> nat \<times> real list \<times> vcs_VolPhase list" where
  "specify_phase mix invSpecies iphase = (\<lambda>(kT, gibbs, vpl).
     let tPhase = mp_phases mix ! iphase;
         volPhase = vpl ! iphase;
         muPhase = tp_chemPotentials tPhase;
         nSpPhase = tp_nSpecies tPhase;
         gibbs' = fold (\<lambda>k g. g[invSpecies ! (kT + k) := muPhase ! k]) [0..<nSpPhase] gibbs
     in (kT + nSpPhase, gibbs', vpl[iphase := specify_existence nSpPhase volPhase]))"

definition VCS_SUCCESS :: int where
  "VCS_SUCCESS = 0"

definition vcs_prob_specifyFully :: "VCS_SOLVE \<Rightarrow> int \<times> VCS_SOLVE" where
  "vcs_prob_specifyFully s =
     (let mix = m_mix s;
          invSpecies = invSpecies_of (m_nsp s) (m_speciesMapIndex s);
          (kT, gibbs, vpl) =
             fold (specify_phase mix invSpecies) [0..<m_numPhases s]
               (0, m_gibbsSpecies s, VPhaseList s);
          numRxnTot = (if m_nelem s > m_nsp s then 0 else size_t_sub (m_nsp s) (m_nelem s))
      in (VCS_SUCCESS,
          s\<lparr>m_temperature := mp_temperature mix,
            m_pressurePA := mp_pressure mix,
            m_totalVol := mp_volume mix,
            m_gibbsSpecies := gibbs,
            VPhaseList := vpl,
            m_numSpeciesRdc := m_nsp s,
            m_numRxnTot := numRxnTot,
            m_numRxnRdc := numRxnTot,
            m_numRxnMinorZeroed := 0,
            m_debug_print_lvl := vcs_debug_print_lvl s\<rparr>))"

section \<open>The constructor: transfer of the species of one phase\<close>





section \<open>The constructor: from the public problem data to the private copy\<close>

text \<open>
  The part of the constructor from "Copy the species unknown type" to the copy of the
  phases, as a chain of blocks over the solver state. The state it starts from is the one
  the transfer loop and \<^verbatim>\<open>set_gai()\<close> leave.
\<close>

text \<open>"w[] -> Copy the equilibrium mole number estimate if it exists."\<close>

definition copy_estimate :: "VCS_SOLVE \<Rightarrow> VCS_SOLVE" where
  "copy_estimate s =
     (if length (w s) \<noteq> 0 then s\<lparr>m_molNumSpecies_old := w s\<rparr>
      else s\<lparr>m_doEstimateEquil := - 1,
             m_molNumSpecies_old := replicate (length (m_molNumSpecies_old s)) 0\<rparr>)"

text \<open>The goal vector from an explicit \<^verbatim>\<open>gai\<close>.\<close>

definition goal_from_gai :: "nat \<Rightarrow> real list \<Rightarrow> elem_type list \<Rightarrow> real list \<Rightarrow> real list" where
  "goal_from_gai nelem gs elType goal =
     fold (\<lambda>i g. let g1 = g[i := gs ! i]
                 in if elType ! i = VCS_ELEM_TYPE_LATTICERATIO \<and> g1 ! i < 1 / 10 ^ 10
                    then g1[i := 0] else g1) [0..<nelem] goal"

text \<open>
  The goal vector from the mole number estimate. \<^verbatim>\<open>sum\<close> is declared before the loop over
  the elements and is never reset, so the loop state is the pair of \<^verbatim>\<open>sum\<close> and the goal
  vector.
\<close>

definition goal_species_step ::
  "species_unknown list \<Rightarrow> real list \<Rightarrow> (nat \<Rightarrow> nat \<Rightarrow> real) \<Rightarrow> nat \<Rightarrow> nat
     \<Rightarrow> real \<times> real list \<Rightarrow> real \<times> real list" where
  "goal_species_step sut mol fm j kspec = (\<lambda>(sum, goal).
     if sut ! kspec \<noteq> VCS_SPECIES_TYPE_INTERFACIALVOLTAGE
     then (sum + mol ! kspec, goal[j := goal ! j + fm kspec j * mol ! kspec])
     else (sum, goal))"

definition goal_element_step ::
  "nat \<Rightarrow> species_unknown list \<Rightarrow> real list \<Rightarrow> (nat \<Rightarrow> nat \<Rightarrow> real) \<Rightarrow> elem_type list \<Rightarrow> nat
     \<Rightarrow> real \<times> real list \<Rightarrow> real \<times> real list" where
  "goal_element_step nsp sut mol fm elType j = (\<lambda>(sum, goal).
     let r = fold (goal_species_step sut mol fm j) [0..<nsp] (sum, goal[j := 0])
     in if elType ! j = VCS_ELEM_TYPE_LATTICERATIO \<and> snd r ! j < 1 / 10 ^ 10 * fst r
        then (fst r, (snd r)[j := 0]) else r)"

definition goal_from_estimate :: "VCS_SOLVE \<Rightarrow> real list" where
  "goal_from_estimate s =
     snd (fold (goal_element_step (m_nsp s) (m_speciesUnknownType s) (m_molNumSpecies_old s)
                  (m_formulaMatrix s) (m_elType s))
            [0..<m_nelem s] (0, m_elemAbundancesGoal s))"

text \<open>"Formulate the Goal Element Abundance Vector"\<close>

definition formulate_goal :: "VCS_SOLVE \<Rightarrow> CanteraError + VCS_SOLVE" where
  "formulate_goal s =
     (if length (gai s) \<noteq> 0 then
        Inr (s\<lparr>m_elemAbundancesGoal :=
                 goal_from_gai (m_nelem s) (gai s) (m_elType s) (m_elemAbundancesGoal s)\<rparr>)
      else if m_doEstimateEquil s = 0 then
        Inr (s\<lparr>m_elemAbundancesGoal := goal_from_estimate s\<rparr>)
      else Inl ElemAbundancesNotSpecified)"

text \<open>
  The sum the specification gives for the goal abundance of element \<open>e\<close>: over all species
  whose unknown is not the interfacial voltage, formula matrix entry times mole number.
\<close>

definition abundance_sum ::
  "nat \<Rightarrow> species_unknown list \<Rightarrow> real list \<Rightarrow> (nat \<Rightarrow> nat \<Rightarrow> real) \<Rightarrow> nat \<Rightarrow> real" where
  "abundance_sum nsp sut mol fm e =
     (\<Sum>k\<leftarrow>[0..<nsp]. if sut ! k \<noteq> VCS_SPECIES_TYPE_INTERFACIALVOLTAGE
                      then fm k e * mol ! k else 0)"

text \<open>
  The inert moles and the identity index maps (the species status vector, set to "major"
  throughout by the same passage, is not part of the state).
\<close>

definition init_maps :: "VCS_SOLVE \<Rightarrow> VCS_SOLVE" where
  "init_maps s =
     s\<lparr>TPhInertMoles :=
         fold (\<lambda>iph t. t[iph := totalMolesInert (VPhaseList s ! iph)]) [0..<m_numPhases s]
           (TPhInertMoles s),
       m_speciesMapIndex := fold (\<lambda>i m. m[i := i]) [0..<m_nsp s] (m_speciesMapIndex s),
       m_elementMapIndex := fold (\<lambda>i m. m[i := i]) [0..<m_nelem s] (m_elementMapIndex s)\<rparr>"

text \<open>"PhaseID: Fill in the species to phase mapping. Check for bad values at the same time."\<close>

fun map_species_to_phases ::
  "nat \<Rightarrow> nat list \<Rightarrow> nat list \<Rightarrow> nat list \<times> nat list \<times> nat list
     \<Rightarrow> CanteraError + nat list \<times> nat list \<times> nat list" where
  "map_species_to_phases numPhases pid [] st = Inr st"
| "map_species_to_phases numPhases pid (kspec # ks) (numPhSp, phid, lpi) =
     (let iph = pid ! kspec
      in if iph \<ge> numPhases then Inl (BadPhaseID kspec iph)
         else map_species_to_phases numPhases pid ks
                (numPhSp[iph := numPhSp ! iph + 1], phid[kspec := pid ! kspec],
                 lpi[kspec := numPhSp ! iph]))"

fun check_phase_counts :: "nat list \<Rightarrow> vcs_VolPhase list \<Rightarrow> nat list \<Rightarrow> CanteraError + unit" where
  "check_phase_counts numPhSp vpl [] = Inr ()"
| "check_phase_counts numPhSp vpl (iph # is) =
     (if numPhSp ! iph \<noteq> nSpecies (vpl ! iph) then Inl (PhaseSpeciesCountMismatch iph)
      else check_phase_counts numPhSp vpl is)"

definition fill_phaseID :: "VCS_SOLVE \<Rightarrow> CanteraError + VCS_SOLVE" where
  "fill_phaseID s =
     (if length (PhaseID s) \<noteq> 0 then
        (case map_species_to_phases (m_numPhases s) (PhaseID s) [0..<m_nsp s]
                (replicate (m_numPhases s) 0, m_phaseID s, m_speciesLocalPhaseIndex s) of
           Inl e \<Rightarrow> Inl e
         | Inr (numPhSp, phid, lpi) \<Rightarrow>
             (case check_phase_counts numPhSp (VPhaseList s) [0..<m_numPhases s] of
                Inl e \<Rightarrow> Inl e
              | Inr u \<Rightarrow> Inr (s\<lparr>m_phaseID := phid, m_speciesLocalPhaseIndex := lpi\<rparr>)))
      else if m_numPhases s = 1 then
        Inr (s\<lparr>m_phaseID := fold (\<lambda>kspec m. m[kspec := 0]) [0..<m_nsp s] (m_phaseID s),
               m_speciesLocalPhaseIndex :=
                 fold (\<lambda>kspec m. m[kspec := kspec]) [0..<m_nsp s] (m_speciesLocalPhaseIndex s)\<rparr>)
      else Inl PhaseIDNotDefined)"

text \<open>The charge neutrality check of the goal vector, over the element indices in order.\<close>

fun check_charge_neutrality ::
  "elem_type list \<Rightarrow> nat list \<Rightarrow> real list \<Rightarrow> CanteraError + real list" where
  "check_charge_neutrality elType [] goal = Inr goal"
| "check_charge_neutrality elType (i # is) goal =
     (if elType ! i = VCS_ELEM_TYPE_CHARGENEUTRALITY then
        (if goal ! i \<noteq> 0 then
           (if \<bar>goal ! i\<bar> > 1 / 10 ^ 9 then Inl (ChargeNeutralityNonzero i (goal ! i))
            else check_charge_neutrality elType is (goal[i := 0]))
         else check_charge_neutrality elType is goal)
      else check_charge_neutrality elType is goal)"

text \<open>"FormulaMatrix[] -> Copy the formula matrix over": one row, then all rows.\<close>

definition copy_formula_row ::
  "nat \<Rightarrow> (nat \<Rightarrow> nat \<Rightarrow> real) \<Rightarrow> nat \<Rightarrow> (nat \<Rightarrow> nat \<Rightarrow> real) \<Rightarrow> bool \<times> (nat \<Rightarrow> nat \<Rightarrow> real)" where
  "copy_formula_row nelem FM i m =
     fold (\<lambda>j (nonzero, m'). (if FM i j \<noteq> 0 then True else nonzero,
                               m'(i := (m' i)(j := FM i j))))
       [0..<nelem] (False, m)"

fun copy_formula_matrix ::
  "nat \<Rightarrow> (nat \<Rightarrow> nat \<Rightarrow> real) \<Rightarrow> nat list \<Rightarrow> (nat \<Rightarrow> nat \<Rightarrow> real)
     \<Rightarrow> CanteraError + (nat \<Rightarrow> nat \<Rightarrow> real)" where
  "copy_formula_matrix nelem FM [] m = Inr m"
| "copy_formula_matrix nelem FM (i # is) m =
     (let r = copy_formula_row nelem FM i m
      in if \<not> fst r then Inl (ZeroFormulaMatrix i)
         else copy_formula_matrix nelem FM is (snd r))"

text \<open>
  The chain. The copies of the molecular weights, the charges, the species names and the
  thermo objects, and the activity conventions, concern members that the state leaves out.
\<close>

definition VCS_SOLVE_finish :: "VCS_SOLVE \<Rightarrow> CanteraError + VCS_SOLVE" where
  "VCS_SOLVE_finish s0 =
     (let s1 = copy_estimate (s0\<lparr>m_speciesUnknownType := SpeciesUnknownType s0\<rparr>)
      in case formulate_goal s1 of
           Inl e \<Rightarrow> Inl e
         | Inr s2 \<Rightarrow>
        (case fill_phaseID (init_maps s2) of
           Inl e \<Rightarrow> Inl e
         | Inr s3 \<Rightarrow>
        (case check_charge_neutrality (m_elType s3) [0..<m_nelem s3]
                (m_elemAbundancesGoal s3) of
           Inl e \<Rightarrow> Inl e
         | Inr goal \<Rightarrow>
        (case copy_formula_matrix (m_nelem s3) (FormulaMatrix s3) [0..<m_nsp s3]
                (m_formulaMatrix s3) of
           Inl e \<Rightarrow> Inl e
         | Inr fm \<Rightarrow>
             Inr (s3\<lparr>m_elemAbundancesGoal := goal,
                     m_formulaMatrix := fm,
                     m_VolPhaseList :=
                       fold (\<lambda>iph l. l[iph := VPhaseList s3 ! iph]) [0..<m_numPhases s3]
                         (m_VolPhaseList s3)\<rparr>)))))"

section \<open>vcs\_prob\_update: writing the solution back\<close>

text \<open>
  "Find the index of I in the index vector": \<open>k1\<close> takes each \<open>j\<close> in turn and the loop
  breaks at the first \<open>j\<close> with \<^verbatim>\<open>m_speciesMapIndex[j] == i\<close>; without such a \<open>j\<close> it
  ends with the last \<open>j\<close>.
\<close>

fun find_species :: "nat list \<Rightarrow> nat \<Rightarrow> nat list \<Rightarrow> nat \<Rightarrow> nat" where
  "find_species smi i [] k1 = k1"
| "find_species smi i (j # js) k1 = (if smi ! j = i then j else find_species smi i js j)"

definition update_species ::
  "VCS_SOLVE \<Rightarrow> nat \<Rightarrow> nat \<times> real list \<times> real list \<Rightarrow> nat \<times> real list \<times> real list" where
  "update_species s i = (\<lambda>(k1, ws, gs).
     let k1' = find_species (m_speciesMapIndex s) i [0..<m_nsp s] k1
     in (k1',
         (if SpeciesUnknownType s ! i \<noteq> VCS_SPECIES_TYPE_INTERFACIALVOLTAGE
          then ws[i := m_molNumSpecies_old s ! k1'] else ws[i := 0]),
         gs[i := m_feSpecies_old s ! k1']))"

text \<open>
  The cross-checks over the species of one phase. \<open>dEq\<close> is \<^verbatim>\<open>vcs_doubleEqual\<close>
  (vcs\_util.cpp, outside the sources at hand); the loop state is \<^verbatim>\<open>mf\<close> and
  \<^verbatim>\<open>sumMoles\<close>.
\<close>

fun check_phase_species ::
  "(real \<Rightarrow> real \<Rightarrow> bool) \<Rightarrow> real list \<Rightarrow> real list \<Rightarrow> vcs_VolPhase \<Rightarrow> vcs_VolPhase
     \<Rightarrow> nat list \<Rightarrow> real list \<times> real \<Rightarrow> CanteraError + real list \<times> real" where
  "check_phase_species dEq molNum ws pubPhase vPhase [] st = Inr st"
| "check_phase_species dEq molNum ws pubPhase vPhase (k # ks) (mfs, sumMoles) =
     (let kT = spGlobalIndexVCS pubPhase ! k;
          mfs' = mfs[kT := moleFractions pubPhase ! k];
          tmp = molNum ! (spGlobalIndexVCS vPhase ! k)
      in if phiVarIndex pubPhase = k \<and> \<not> dEq (electricPotential pubPhase) tmp
           then Inl (InconsistentVoltage (electricPotential pubPhase) tmp)
         else if \<not> dEq (mfs' ! kT) (moleFractions vPhase ! k)
           then Inl (InconsistentMoleFraction (mfs' ! kT) (moleFractions vPhase ! k))
         else check_phase_species dEq molNum ws pubPhase vPhase ks
                (mfs',
                 if speciesUnknownType pubPhase ! k \<noteq> VCS_SPECIES_TYPE_INTERFACIALVOLTAGE
                 then sumMoles + ws ! kT else sumMoles))"

text \<open>
  The public phase after the three setters; \<^verbatim>\<open>setMoleFractionsState\<close> (vcs\_VolPhase.cpp,
  outside the sources at hand) is the parameter \<open>setMFS\<close>, which may itself throw.
\<close>

definition publish_phase :: "vcs_VolPhase \<Rightarrow> vcs_VolPhase \<Rightarrow> vcs_VolPhase" where
  "publish_phase vPhase pubPhase =
     setElectricPotential (electricPotential vPhase)
       (setTotalMoles (totalMoles vPhase)
          (setTotalMolesInert (totalMolesInert vPhase) pubPhase))"

definition update_phase ::
  "(real \<Rightarrow> real \<Rightarrow> bool) \<Rightarrow> (real \<Rightarrow> real list \<Rightarrow> vcs_VolPhase \<Rightarrow> CanteraError + vcs_VolPhase)
     \<Rightarrow> real list \<Rightarrow> real list \<Rightarrow> vcs_VolPhase \<Rightarrow> vcs_VolPhase \<Rightarrow> real list
     \<Rightarrow> CanteraError + real list \<times> vcs_VolPhase" where
  "update_phase dEq setMFS molNum ws vPhase pubPhase0 mfs =
     (case setMFS (totalMoles vPhase) (moleFractions vPhase) (publish_phase vPhase pubPhase0) of
        Inl e \<Rightarrow> Inl e
      | Inr pubPhase \<Rightarrow>
          (case check_phase_species dEq molNum ws pubPhase vPhase [0..<nSpecies pubPhase]
                  (mfs, totalMolesInert pubPhase) of
             Inl e \<Rightarrow> Inl e
           | Inr (mfs', sumMoles) \<Rightarrow>
               if \<not> dEq sumMoles (totalMoles vPhase)
               then Inl (InconsistentTotalMoles sumMoles (totalMoles pubPhase))
               else Inr (mfs', pubPhase)))"

fun update_phases ::
  "(real \<Rightarrow> real \<Rightarrow> bool) \<Rightarrow> (real \<Rightarrow> real list \<Rightarrow> vcs_VolPhase \<Rightarrow> CanteraError + vcs_VolPhase)
     \<Rightarrow> real list \<Rightarrow> real list \<Rightarrow> vcs_VolPhase list \<Rightarrow> nat list
     \<Rightarrow> real list \<times> vcs_VolPhase list \<Rightarrow> CanteraError + real list \<times> vcs_VolPhase list" where
  "update_phases dEq setMFS molNum ws vpl [] st = Inr st"
| "update_phases dEq setMFS molNum ws vpl (iph # is) (mfs, pubs) =
     (case update_phase dEq setMFS molNum ws (vpl ! iph) (pubs ! iph) mfs of
        Inl e \<Rightarrow> Inl e
      | Inr (mfs', pubPhase) \<Rightarrow>
          update_phases dEq setMFS molNum ws vpl is (mfs', pubs[iph := pubPhase]))"

text \<open>
  The species loop: the written-back \<^verbatim>\<open>w\<close> and \<^verbatim>\<open>m_gibbsSpecies\<close>.
\<close>

definition update_all_species :: "VCS_SOLVE \<Rightarrow> nat \<times> real list \<times> real list" where
  "update_all_species s = fold (update_species s) [0..<m_nsp s] (0, w s, m_gibbsSpecies s)"

text \<open>
  \<^verbatim>\<open>vcs_prob_update\<close>, from the loop over the species on. The calls before it,
  \<^verbatim>\<open>vcs_tmoles()\<close> and \<^verbatim>\<open>vcs_VolTotal(...)\<close>, refresh the private phases and
  \<^verbatim>\<open>m_totalVol\<close> through phase methods outside the sources at hand and leave
  \<^verbatim>\<open>m_molNumSpecies_old\<close> and \<^verbatim>\<open>m_speciesMapIndex\<close> as they are; the state \<open>s\<close> is the
  one they leave.
\<close>

definition vcs_prob_update ::
  "(real \<Rightarrow> real \<Rightarrow> bool) \<Rightarrow> (real \<Rightarrow> real list \<Rightarrow> vcs_VolPhase \<Rightarrow> CanteraError + vcs_VolPhase)
     \<Rightarrow> VCS_SOLVE \<Rightarrow> CanteraError + int \<times> VCS_SOLVE" where
  "vcs_prob_update dEq setMFS s =
     (let ws = fst (snd (update_all_species s));
          gs = snd (snd (update_all_species s))
      in case update_phases dEq setMFS (m_molNumSpecies_old s) ws (m_VolPhaseList s)
                [0..<m_numPhases s] (mf s, VPhaseList s) of
           Inl e \<Rightarrow> Inl e
         | Inr (mfs, pubs) \<Rightarrow>
             Inr (VCS_SUCCESS,
                  s\<lparr>w := ws, m_gibbsSpecies := gs, mf := mfs, VPhaseList := pubs\<rparr>))"

section \<open>Reaction import: installReactionArrays (importKinetics.cpp)\<close>

text \<open>
  An XML element with its name, its attributes and its children. \<^verbatim>\<open>node[a]\<close> and
  \<^verbatim>\<open>attrib(a)\<close> give the attribute's value, the empty string when it is absent;
  \<^verbatim>\<open>getChildren(nm)\<close> gives the children named \<open>nm\<close> in document order.
\<close>

datatype XML_Node =
  XML_Node (node_name: string) (node_attribs: "(string \<times> string) list")
           (node_children: "XML_Node list")

definition attrib :: "XML_Node \<Rightarrow> string \<Rightarrow> string" where
  "attrib n a = (case map_of (node_attribs n) a of None \<Rightarrow> [] | Some v \<Rightarrow> v)"

definition getChildren :: "XML_Node \<Rightarrow> string \<Rightarrow> XML_Node list" where
  "getChildren n nm = filter (\<lambda>c. node_name c = nm) (node_children n)"

definition hasChild :: "XML_Node \<Rightarrow> string \<Rightarrow> bool" where
  "hasChild n nm = (getChildren n nm \<noteq> [])"

text \<open>
  The kinetics manager, as far as this routine drives it: the reactions handed to
  \<^verbatim>\<open>addReaction\<close> in order (each as the XML element \<^verbatim>\<open>newReaction\<close> was given), the two
  skip flags, and whether \<^verbatim>\<open>checkDuplicates\<close> and \<^verbatim>\<open>finalize\<close> have run.
\<close>

record Kinetics =
  kin_added :: "XML_Node list"
  kin_skipUndeclaredSpecies :: bool
  kin_skipUndeclaredThirdBodies :: bool
  kin_checkedDuplicates :: bool
  kin_finalized :: bool

definition addReaction :: "XML_Node \<Rightarrow> Kinetics \<Rightarrow> Kinetics" where
  "addReaction r kin = kin\<lparr>kin_added := kin_added kin @ [r]\<rparr>"

text \<open>\<^verbatim>\<open>std::string::find("*")\<close>: the first position of the character, \<open>None\<close> for npos.\<close>

fun find_char :: "char \<Rightarrow> string \<Rightarrow> nat option" where
  "find_char c [] = None"
| "find_char c (x # xs) =
     (if x = c then Some 0 else (case find_char c xs of None \<Rightarrow> None | Some i \<Rightarrow> Some (Suc i)))"

text \<open>\<^verbatim>\<open>s.substr(0, n)\<close>: the first \<open>n\<close> characters, the whole string when it is shorter.\<close>

definition substr0 :: "string \<Rightarrow> nat \<Rightarrow> string" where
  "substr0 s n = take n s"

text \<open>
  The bounds of one include directive: \<^verbatim>\<open>imin\<close>, \<^verbatim>\<open>imax\<close> and \<^verbatim>\<open>iwild\<close> after the
  wildcard treatment.
\<close>

definition include_bounds :: "XML_Node \<Rightarrow> string \<times> string \<times> nat option" where
  "include_bounds ii =
     (let imin = attrib ii ''min''; imax = attrib ii ''max''
      in if imax = imin then
           (case find_char CHR ''*'' imin of
              None \<Rightarrow> (imin, imax, None)
            | Some iwild \<Rightarrow> (substr0 imin iwild, substr0 imin iwild, Some iwild))
         else (imin, imax, None))"

text \<open>
  The test of one reaction against the bounds; \<^verbatim>\<open>std::string\<close> compares
  lexicographically, character by character as unsigned bytes, a proper prefix being
  smaller: the order of \<^typ>\<open>char list\<close>.
\<close>

definition rxn_in_bounds :: "string \<times> string \<times> nat option \<Rightarrow> XML_Node \<Rightarrow> bool" where
  "rxn_in_bounds b r =
     (case b of (imin, imax, iwild) \<Rightarrow>
        let rxid = (case iwild of None \<Rightarrow> attrib r ''id''
                    | Some n \<Rightarrow> substr0 (attrib r ''id'') n)
        in rxid \<ge> imin \<and> rxid \<le> imax)"

definition install_include :: "XML_Node list \<Rightarrow> XML_Node \<Rightarrow> Kinetics \<times> int \<Rightarrow> Kinetics \<times> int" where
  "install_include allrxns ii =
     fold (\<lambda>r (kin, itot). if rxn_in_bounds (include_bounds ii) r
                            then (addReaction r kin, itot + 1) else (kin, itot)) allrxns"

text \<open>
  One \<^verbatim>\<open>reactionArray\<close> element. \<open>get_XML_Node\<close> resolves the \<^verbatim>\<open>datasrc\<close> attribute from
  the root of the document (ctml, outside the sources at hand).
\<close>

definition apply_skip :: "XML_Node \<Rightarrow> Kinetics \<Rightarrow> Kinetics" where
  "apply_skip rxns kin =
     (if hasChild rxns ''skip'' then
        (let sk = hd (getChildren rxns ''skip'');
             kin1 = (if attrib sk ''species'' = ''undeclared''
                     then kin\<lparr>kin_skipUndeclaredSpecies := True\<rparr> else kin)
         in if attrib sk ''third_bodies'' = ''undeclared''
            then kin1\<lparr>kin_skipUndeclaredThirdBodies := True\<rparr> else kin1)
      else kin)"

definition install_array ::
  "(string \<Rightarrow> XML_Node) \<Rightarrow> XML_Node \<Rightarrow> Kinetics \<times> int \<Rightarrow> Kinetics \<times> int" where
  "install_array get_XML_Node rxns = (\<lambda>(kin, itot).
     let rdata = get_XML_Node (attrib rxns ''datasrc'');
         kin1 = apply_skip rxns kin;
         incl = getChildren rxns ''include'';
         allrxns = getChildren rdata ''reaction''
     in if incl = [] then
          fold (\<lambda>r (k, n). (addReaction r k, n + 1)) allrxns (kin1, itot)
        else
          fold (install_include allrxns) incl (kin1, itot))"

definition installReactionArrays ::
  "(string \<Rightarrow> XML_Node) \<Rightarrow> XML_Node \<Rightarrow> Kinetics \<Rightarrow> bool \<Rightarrow> bool \<times> Kinetics" where
  "installReactionArrays get_XML_Node p kin check_for_duplicates =
     (let rarrays = getChildren p ''reactionArray''
      in if rarrays = [] then (False, kin\<lparr>kin_finalized := True\<rparr>)
         else
           (let kin1 = fst (fold (install_array get_XML_Node) rarrays (kin, 0));
                kin2 = (if check_for_duplicates then kin1\<lparr>kin_checkedDuplicates := True\<rparr>
                        else kin1)
            in (True, kin2\<lparr>kin_finalized := True\<rparr>)))"

text \<open>
  The selection rule in the words of the specification: with \<open>imin\<close> and \<open>imax\<close> the
  bounds of the directive, all three strings are cut at the position of the first \<open>*\<close>
  when \<open>imin = imax\<close> contains one, and the reaction id must lie between the bounds.
\<close>

definition spec_selects :: "XML_Node \<Rightarrow> XML_Node \<Rightarrow> bool" where
  "spec_selects ii r =
     (let imin = attrib ii ''min''; imax = attrib ii ''max''; rxid = attrib r ''id''
      in if imin = imax \<and> CHR ''*'' \<in> set imin then
           (let n = length (takeWhile (\<lambda>c. c \<noteq> CHR ''*'') imin)
            in take n imin \<le> take n rxid \<and> take n rxid \<le> take n imax)
         else imin \<le> rxid \<and> rxid \<le> imax)"

section \<open>A concrete problem\<close>

text \<open>
  A small problem on which the functions above can be run: a gas phase with two species
  holding 1 and 3 kmol, and a one-species electrode phase whose unknown is the interfacial
  voltage; two elements, the second a charge neutrality constraint.
\<close>

definition example_gas :: vcs_VolPhase where
  "example_gas =
     \<lparr>nSpecies = 2, phiVarIndex = 2 ^ 64 - 1, totalMoles = 4, totalMolesInert = 0,
      electricPotential = 0, moleFractions = [1 / 4, 3 / 4], spGlobalIndexVCS = [0, 1],
      speciesUnknownType = [VCS_SPECIES_TYPE_MOLNUM, VCS_SPECIES_TYPE_MOLNUM],
      existence = VCS_PHASE_EXIST_NO\<rparr>"

definition example_electrode :: vcs_VolPhase where
  "example_electrode =
     \<lparr>nSpecies = 1, phiVarIndex = 0, totalMoles = 0, totalMolesInert = 0,
      electricPotential = 1 / 2, moleFractions = [1], spGlobalIndexVCS = [2],
      speciesUnknownType = [VCS_SPECIES_TYPE_INTERFACIALVOLTAGE],
      existence = VCS_PHASE_EXIST_NO\<rparr>"

definition example_mix :: MultiPhase where
  "example_mix =
     \<lparr>mp_temperature = 300, mp_pressure = 101325, mp_volume = 1,
      mp_phases = [\<lparr>tp_nSpecies = 2, tp_chemPotentials = [- 1, - 2], tp_electricPotential = 0\<rparr>,
                   \<lparr>tp_nSpecies = 1, tp_chemPotentials = [0], tp_electricPotential = 1 / 2\<rparr>],
      mp_speciesMoles = [1, 3, 0],
      mp_moleFraction = [1 / 4, 3 / 4, 1]\<rparr>"

definition example_matrix :: "nat \<Rightarrow> nat \<Rightarrow> real" where
  "example_matrix i j = [[2, 0], [1, 0], [0, 1]] ! i ! j"

definition example_solver :: VCS_SOLVE where
  "example_solver =
     \<lparr>m_mix = example_mix, m_nsp = 3, m_nelem = 2, m_numPhases = 2, m_numRxnTot = 0,
      m_numSpeciesRdc = 0, m_numRxnRdc = 0, m_numRxnMinorZeroed = 0,
      m_doEstimateEquil = - 1, m_temperature = 300, m_pressurePA = 101325, m_totalVol = 1,
      vcs_debug_print_lvl = 0, m_debug_print_lvl = 0, m_timing_print_lvl = 1,
      w = [1, 3, 1 / 2], mf = [1 / 4, 3 / 4, 1], gai = [5, 0],
      m_gibbsSpecies = [- 1, - 2, 0],
      SpeciesUnknownType = [VCS_SPECIES_TYPE_MOLNUM, VCS_SPECIES_TYPE_MOLNUM,
                            VCS_SPECIES_TYPE_INTERFACIALVOLTAGE],
      PhaseID = [0, 0, 1],
      FormulaMatrix = example_matrix, m_formulaMatrix = example_matrix,
      TPhInertMoles = [0, 0],
      m_molNumSpecies_old = [1, 3, 1 / 2], m_feSpecies_old = [- 1, - 2, 0],
      m_speciesUnknownType = [VCS_SPECIES_TYPE_MOLNUM, VCS_SPECIES_TYPE_MOLNUM,
                              VCS_SPECIES_TYPE_INTERFACIALVOLTAGE],
      m_elType = [VCS_ELEM_TYPE_ABSPOS, VCS_ELEM_TYPE_CHARGENEUTRALITY],
      m_elemAbundancesGoal = [0, 0],
      m_speciesMapIndex = [0, 1, 2], m_elementMapIndex = [0, 1],
      m_phaseID = [0, 0, 0], m_speciesLocalPhaseIndex = [0, 0, 0],
      VPhaseList = [example_gas, example_electrode],
      m_VolPhaseList = [example_gas, example_electrode]\<rparr>"





text \<open>
  Instances of the two parameters of \<open>vcs_prob_update\<close> for the concrete problem: a
  relative tolerance test, and a phase adapter that stores the mole fractions it is
  given.
\<close>

definition approx_equal :: "real \<Rightarrow> real \<Rightarrow> bool" where
  "approx_equal d1 d2 \<longleftrightarrow> \<bar>d1 - d2\<bar> \<le> (\<bar>d1\<bar> + \<bar>d2\<bar> + 1) / 10 ^ 10"

definition store_mole_fractions ::
  "real \<Rightarrow> real list \<Rightarrow> vcs_VolPhase \<Rightarrow> CanteraError + vcs_VolPhase" where
  "store_mole_fractions tm xs p = Inr (p\<lparr>moleFractions := xs\<rparr>)"

text \<open>
  A small mechanism file: four reactions with the ids R1, R10, R2 and R5, and a phase whose
  reactionArray includes the range from R1 to R3.
\<close>

definition example_reaction :: "string \<Rightarrow> XML_Node" where
  "example_reaction rid = XML_Node ''reaction'' [(''id'', rid)] []"

definition example_reactionData :: XML_Node where
  "example_reactionData =
     XML_Node ''reactionData'' [(''id'', ''rxns'')]
       [example_reaction ''R1'', example_reaction ''R10'', example_reaction ''R2'',
        example_reaction ''R5'']"

definition example_include :: "string \<Rightarrow> string \<Rightarrow> XML_Node" where
  "example_include lo hi = XML_Node ''include'' [(''min'', lo), (''max'', hi)] []"

definition example_phase_node :: "XML_Node list \<Rightarrow> XML_Node" where
  "example_phase_node incl =
     XML_Node ''phase'' [(''id'', ''gas'')]
       [XML_Node ''reactionArray'' [(''datasrc'', ''#rxns'')] incl]"

definition example_get_XML_Node :: "string \<Rightarrow> XML_Node" where
  "example_get_XML_Node src =
     (if src = ''#rxns'' then example_reactionData else XML_Node [] [] [])"

definition example_kinetics :: Kinetics where
  "example_kinetics =
     \<lparr>kin_added = [], kin_skipUndeclaredSpecies = False,
      kin_skipUndeclaredThirdBodies = False, kin_checkedDuplicates = False,
      kin_finalized = False\<rparr>"

section \<open>Properties of the timing switch\<close>

lemma run_Nil: "run [] p = p"
  by (simp add: run_def)

lemma run_Cons: "run (e # es) p = run es (step p e)"
  by (simp add: run_def)

lemma step_instances_prefix:
  "\<exists>zs. instances (step p e) = instances p @ zs \<and>
        (vcs_timing_print_lvl p = 0 \<longrightarrow> (\<forall>z \<in> set zs. z = 0))"
  by (cases e) (simp_all add: construct_def disableTiming_def ctor_timing_print_lvl_def)

lemma step_keeps_zero:
  "vcs_timing_print_lvl p = 0 \<Longrightarrow> vcs_timing_print_lvl (step p e) = 0"
  by (cases e) (simp_all add: construct_def disableTiming_def)

lemma run_after_zero:
  "vcs_timing_print_lvl p = 0 \<Longrightarrow>
   vcs_timing_print_lvl (run es p) = 0 \<and>
   (\<exists>zs. instances (run es p) = instances p @ zs \<and> (\<forall>z \<in> set zs. z = 0))"
proof (induction es arbitrary: p)
  case Nil
  then show ?case by (simp add: run_Nil)
next
  case (Cons e es)
  have z: "vcs_timing_print_lvl (step p e) = 0"
    using Cons.prems by (rule step_keeps_zero)
  obtain zs where zs: "instances (step p e) = instances p @ zs" "\<forall>z \<in> set zs. z = 0"
    using step_instances_prefix [of p e] Cons.prems by blast
  obtain ys where ys: "instances (run es (step p e)) = instances (step p e) @ ys"
      "\<forall>z \<in> set ys. z = 0"
    using Cons.IH [OF z] by blast
  have "instances (run (e # es) p) = instances p @ (zs @ ys)"
    by (simp add: run_Cons ys zs)
  moreover have "\<forall>z \<in> set (zs @ ys). z = 0"
    using zs ys by auto
  ultimately show ?case
    using Cons.IH [OF z] by (metis run_Cons)
qed

text \<open>
  C9, as stated, fails: a solver constructed before the call keeps the level it read at
  construction. Constructing one solver in a fresh process and then calling
  \<^verbatim>\<open>disableTiming()\<close> leaves that solver's \<^verbatim>\<open>m_timing_print_lvl\<close> at 1.
\<close>

theorem C9_existing_instance_keeps_level:
  "instances (disableTiming (construct initial_process)) ! 0 = 1"
  by (simp add: disableTiming_def construct_def initial_process_def ctor_timing_print_lvl_def)

text \<open>
  C9, amended: after a call of \<^verbatim>\<open>disableTiming()\<close> the global level is 0 and stays 0
  whatever happens next; every solver constructed after the call has
  \<^verbatim>\<open>m_timing_print_lvl = 0\<close>; the solvers that existed at the call keep the level they
  had.
\<close>

theorem C9_disableTiming_later_instances:
  "vcs_timing_print_lvl (run es (disableTiming p)) = 0 \<and>
   length (instances p) \<le> length (instances (run es (disableTiming p))) \<and>
   (\<forall>i. length (instances p) \<le> i \<and> i < length (instances (run es (disableTiming p)))
        \<longrightarrow> instances (run es (disableTiming p)) ! i = 0) \<and>
   (\<forall>i < length (instances p). instances (run es (disableTiming p)) ! i = instances p ! i)"
proof -
  let ?q = "disableTiming p"
  have z: "vcs_timing_print_lvl ?q = 0" and same: "instances ?q = instances p"
    by (simp_all add: disableTiming_def)
  obtain zs where zs: "instances (run es ?q) = instances p @ zs" "\<forall>z \<in> set zs. z = 0"
    using run_after_zero [OF z, of es] same by auto
  have "vcs_timing_print_lvl (run es ?q) = 0"
    using run_after_zero [OF z, of es] by simp
  moreover have "\<forall>i. length (instances p) \<le> i \<and> i < length (instances (run es ?q))
        \<longrightarrow> instances (run es ?q) ! i = 0"
    using zs by (auto simp: nth_append)
  moreover have "\<forall>i < length (instances p). instances (run es ?q) ! i = instances p ! i"
    using zs by (simp add: nth_append)
  ultimately show ?thesis using zs by simp
qed

theorem C9_disableTiming_later_instances_witness:
  "instances (run [Construct, Solve 0, Construct] (disableTiming (construct initial_process)))
     = [1, 0, 0] \<and>
   vcs_timing_print_lvl
     (run [Construct, Solve 0, Construct] (disableTiming (construct initial_process))) = 0"
  using C9_disableTiming_later_instances
          [of "[Construct, Solve 0, Construct]" "construct initial_process"]
  by (simp add: run_def disableTiming_def construct_def initial_process_def
                ctor_timing_print_lvl_def)

section \<open>Properties of vcs\_prob\_specifyFully\<close>

lemma wrap_sub_exact:
  fixes a b N :: nat
  assumes "b \<le> a" and "a < N"
  shows "(a + N - b) mod N = a - b"
proof -
  have eq: "a + N - b = (a - b) + N" using assms by arith
  have lt: "a - b < N" using assms by arith
  have "(a + N - b) mod N = ((a - b) + N) mod N" by (simp only: eq)
  also have "\<dots> = (a - b) mod N" by (rule mod_add_self2)
  also have "\<dots> = a - b" using lt by (rule mod_less)
  finally show ?thesis .
qed

lemma size_t_sub_le: "b \<le> a \<Longrightarrow> a < 2 ^ 64 \<Longrightarrow> size_t_sub a b = a - b"
  unfolding size_t_sub_def by (rule wrap_sub_exact)

lemma specify_phases_result:
  "n \<le> length vpl \<Longrightarrow>
   \<exists>kT' g'. fold (specify_phase mix iv) [0..<n] (kT, g, vpl) =
     (kT', g', map (\<lambda>i. if i < n then specify_existence (tp_nSpecies (mp_phases mix ! i)) (vpl ! i)
                         else vpl ! i) [0..<length vpl])"
proof (induction n)
  case 0
  then show ?case by (simp add: map_nth)
next
  case (Suc n)
  let ?V = "\<lambda>m. map (\<lambda>i. if i < m then specify_existence (tp_nSpecies (mp_phases mix ! i)) (vpl ! i)
                         else vpl ! i) [0..<length vpl]"
  from Suc obtain kT' g' where r: "fold (specify_phase mix iv) [0..<n] (kT, g, vpl) = (kT', g', ?V n)"
    by auto
  have n: "n < length vpl" using Suc.prems by simp
  have upd: "(?V n)[n := specify_existence (tp_nSpecies (mp_phases mix ! n)) (?V n ! n)] = ?V (Suc n)"
    using n by (intro nth_equalityI) (auto simp: nth_list_update less_Suc_eq)
  have e1: "fold (specify_phase mix iv) [0..<Suc n] (kT, g, vpl) =
      specify_phase mix iv n (kT', g', ?V n)"
    using r by simp
  obtain a b where e2: "specify_phase mix iv n (kT', g', ?V n) =
      (a, b, (?V n)[n := specify_existence (tp_nSpecies (mp_phases mix ! n)) (?V n ! n)])"
    unfolding specify_phase_def Let_def by simp
  have "fold (specify_phase mix iv) [0..<Suc n] (kT, g, vpl) = (a, b, ?V (Suc n))"
    unfolding e1 e2 upd ..
  then show ?case by blast
qed

text \<open>
  C2: after \<^verbatim>\<open>vcs_prob_specifyFully\<close>, every phase \<open>iphase\<close> of \<^verbatim>\<open>VPhaseList\<close> has its
  existence flag set to ALWAYS when the phase has exactly one species and
  \<^verbatim>\<open>phiVarIndex() == 0\<close>; otherwise to YES when its total moles are strictly positive,
  and to NO when they are not.
\<close>

theorem C2_existence:
  assumes "iphase < m_numPhases s" and "m_numPhases s \<le> length (VPhaseList s)"
  shows "existence (VPhaseList (snd (vcs_prob_specifyFully s)) ! iphase) =
     (if tp_nSpecies (mp_phases (m_mix s) ! iphase) = 1 \<and> phiVarIndex (VPhaseList s ! iphase) = 0
        then VCS_PHASE_EXIST_ALWAYS
      else if totalMoles (VPhaseList s ! iphase) > 0 then VCS_PHASE_EXIST_YES
      else VCS_PHASE_EXIST_NO)"
proof -
  obtain kT' g' where
    "fold (specify_phase (m_mix s) (invSpecies_of (m_nsp s) (m_speciesMapIndex s)))
       [0..<m_numPhases s] (0, m_gibbsSpecies s, VPhaseList s) =
     (kT', g', map (\<lambda>i. if i < m_numPhases s
                          then specify_existence (tp_nSpecies (mp_phases (m_mix s) ! i)) (VPhaseList s ! i)
                          else VPhaseList s ! i) [0..<length (VPhaseList s)])"
    using specify_phases_result [OF assms(2)] by blast
  then have "VPhaseList (snd (vcs_prob_specifyFully s)) ! iphase =
      specify_existence (tp_nSpecies (mp_phases (m_mix s) ! iphase)) (VPhaseList s ! iphase)"
    using assms by (simp add: vcs_prob_specifyFully_def Let_def)
  then show ?thesis
    by (simp add: specify_existence_def setExistence_def)
qed

theorem C2_existence_witness:
  "(1::nat) < m_numPhases example_solver \<and>
   m_numPhases example_solver \<le> length (VPhaseList example_solver) \<and>
   existence (VPhaseList (snd (vcs_prob_specifyFully example_solver)) ! 1)
     = VCS_PHASE_EXIST_ALWAYS \<and>
   existence (VPhaseList (snd (vcs_prob_specifyFully example_solver)) ! 0)
     = VCS_PHASE_EXIST_YES"
  using C2_existence [of 1 example_solver] C2_existence [of 0 example_solver]
  by (simp add: example_solver_def example_mix_def example_gas_def example_electrode_def)

text \<open>
  C5: after \<^verbatim>\<open>vcs_prob_specifyFully\<close> the number of reactions is
  \<open>nsp - min nel nsp\<close>: 0 when there are more elements than species, \<open>m_nsp - m_nelem\<close>
  otherwise (the unsigned subtraction does not wrap); \<^verbatim>\<open>m_numRxnRdc\<close> equals
  \<^verbatim>\<open>m_numRxnTot\<close>, and the routine returns the success flag.
\<close>

theorem C5_numRxnTot:
  assumes "m_nsp s < 2 ^ 64" and "m_nelem s < 2 ^ 64"
  shows "m_numRxnTot (snd (vcs_prob_specifyFully s)) = m_nsp s - min (m_nelem s) (m_nsp s) \<and>
         m_numRxnTot (snd (vcs_prob_specifyFully s)) =
           (if m_nelem s > m_nsp s then 0 else m_nsp s - m_nelem s) \<and>
         m_numRxnRdc (snd (vcs_prob_specifyFully s)) = m_numRxnTot (snd (vcs_prob_specifyFully s)) \<and>
         fst (vcs_prob_specifyFully s) = VCS_SUCCESS"
proof -
  have "size_t_sub (m_nsp s) (m_nelem s) = m_nsp s - m_nelem s" if "\<not> m_nelem s > m_nsp s"
    using that assms by (simp add: size_t_sub_le)
  then show ?thesis
    by (simp add: vcs_prob_specifyFully_def Let_def split: prod.splits)
qed

theorem C5_numRxnTot_witness:
  "m_nsp example_solver < 2 ^ 64 \<and> m_nelem example_solver < 2 ^ 64 \<and>
   m_numRxnTot (snd (vcs_prob_specifyFully example_solver)) = 1 \<and>
   m_numRxnRdc (snd (vcs_prob_specifyFully example_solver)) = 1"
  using C5_numRxnTot [of example_solver]
  by (simp add: example_solver_def)

section \<open>Properties of the constructor\<close>

subsection \<open>The goal element abundances\<close>

lemma fold_update_length:
  "length (fold (\<lambda>i m. m[i := f i]) is m) = length m"
  by (induction "is" arbitrary: m) auto

lemma goal_from_gai_length:
  "length (goal_from_gai n gs et goal) = length goal"
proof -
  have "length (fold (\<lambda>i g. let g1 = g[i := gs ! i]
                 in if et ! i = VCS_ELEM_TYPE_LATTICERATIO \<and> g1 ! i < 1 / 10 ^ 10
                    then g1[i := 0] else g1) is g) = length g" for "is" g
    by (induction "is" arbitrary: g) (auto simp: Let_def)
  then show ?thesis by (simp add: goal_from_gai_def)
qed

lemma goal_species_step_apply:
  "goal_species_step sut mol fm j k (sm, goal) =
     (if sut ! k \<noteq> VCS_SPECIES_TYPE_INTERFACIALVOLTAGE
      then (sm + mol ! k, goal[j := goal ! j + fm k j * mol ! k]) else (sm, goal))"
  by (simp add: goal_species_step_def)

lemma goal_species_fold:
  "j < length goal \<Longrightarrow>
   snd (fold (goal_species_step sut mol fm j) ks (sm, goal)) =
     goal[j := goal ! j + (\<Sum>k\<leftarrow>ks. if sut ! k \<noteq> VCS_SPECIES_TYPE_INTERFACIALVOLTAGE
                                     then fm k j * mol ! k else 0)]"
proof (induction ks arbitrary: sm goal)
  case Nil
  then show ?case by simp
next
  case (Cons k ks)
  show ?case
  proof (cases "sut ! k \<noteq> VCS_SPECIES_TYPE_INTERFACIALVOLTAGE")
    case True
    have "j < length (goal[j := goal ! j + fm k j * mol ! k])" using Cons.prems by simp
    from Cons.IH [OF this] True Cons.prems show ?thesis
      by (simp add: goal_species_step_apply algebra_simps)
  next
    case False
    from Cons.IH [OF Cons.prems] False show ?thesis
      by (simp add: goal_species_step_apply)
  qed
qed

lemma goal_element_step_snd:
  assumes "j < length goal"
  shows "snd (goal_element_step nsp sut mol fm et j (sm, goal)) =
           goal[j := abundance_sum nsp sut mol fm j] \<or>
         (et ! j = VCS_ELEM_TYPE_LATTICERATIO \<and>
          snd (goal_element_step nsp sut mol fm et j (sm, goal)) = goal[j := 0])"
proof -
  have "j < length (goal[j := 0])" using assms by simp
  from goal_species_fold [OF this, of sut mol fm "[0..<nsp]" sm]
  have "snd (fold (goal_species_step sut mol fm j) [0..<nsp] (sm, goal[j := 0])) =
          goal[j := abundance_sum nsp sut mol fm j]"
    using assms by (simp add: abundance_sum_def)
  then show ?thesis
    by (auto simp: goal_element_step_def Let_def)
qed


lemma goal_elements_fold:
  "n \<le> length goal \<Longrightarrow>
   length (snd (fold (goal_element_step nsp sut mol fm et) [0..<n] (sm, goal))) = length goal \<and>
   (\<forall>e<n. snd (fold (goal_element_step nsp sut mol fm et) [0..<n] (sm, goal)) ! e =
             abundance_sum nsp sut mol fm e \<or>
           (et ! e = VCS_ELEM_TYPE_LATTICERATIO \<and>
            snd (fold (goal_element_step nsp sut mol fm et) [0..<n] (sm, goal)) ! e = 0)) \<and>
   (\<forall>e\<ge>n. snd (fold (goal_element_step nsp sut mol fm et) [0..<n] (sm, goal)) ! e = goal ! e)"
proof (induction n)
  case 0
  then show ?case by simp
next
  case (Suc n)
  let ?r = "fold (goal_element_step nsp sut mol fm et) [0..<n] (sm, goal)"
  let ?g = "snd ?r"
  have IH: "length ?g = length goal"
    "\<forall>e<n. ?g ! e = abundance_sum nsp sut mol fm e \<or>
            (et ! e = VCS_ELEM_TYPE_LATTICERATIO \<and> ?g ! e = 0)"
    "\<forall>e\<ge>n. ?g ! e = goal ! e"
    using Suc by simp_all
  have n: "n < length ?g" using Suc.prems IH(1) by simp
  have step: "fold (goal_element_step nsp sut mol fm et) [0..<Suc n] (sm, goal) =
      goal_element_step nsp sut mol fm et n (fst ?r, ?g)"
    by simp
  from goal_element_step_snd [OF n, of nsp sut mol fm et "fst ?r"]
  consider (a) "snd (goal_element_step nsp sut mol fm et n (fst ?r, ?g)) =
                  ?g[n := abundance_sum nsp sut mol fm n]"
    | (b) "et ! n = VCS_ELEM_TYPE_LATTICERATIO"
          "snd (goal_element_step nsp sut mol fm et n (fst ?r, ?g)) = ?g[n := 0]"
    by blast
  then show ?case
  proof cases
    case a
    show ?thesis
      unfolding step a using IH n
      by (auto simp: nth_list_update less_Suc_eq)
  next
    case b
    show ?thesis
      unfolding step b(2) using IH n b(1)
      by (auto simp: nth_list_update less_Suc_eq)
  qed
qed

lemma nth_list_update_total:
  "xs[i := v] ! k = (if k = i \<and> i < length xs then v else xs ! k)"
  by (cases "i < length xs") (auto simp: nth_list_update list_update_beyond)

subsection \<open>Frame facts of the blocks\<close>

lemma goal_from_estimate_length:
  "m_nelem s \<le> length (m_elemAbundancesGoal s) \<Longrightarrow>
   length (goal_from_estimate s) = length (m_elemAbundancesGoal s)"
  unfolding goal_from_estimate_def using goal_elements_fold by blast

lemma formulate_goal_frame:
  assumes "formulate_goal s = Inr s'"
  shows "m_nelem s' = m_nelem s" and "m_nsp s' = m_nsp s" and "m_elType s' = m_elType s"
    and "FormulaMatrix s' = FormulaMatrix s" and "m_numPhases s' = m_numPhases s"
    and "m_nelem s \<le> length (m_elemAbundancesGoal s) \<Longrightarrow>
         length (m_elemAbundancesGoal s') = length (m_elemAbundancesGoal s)"
  using assms
  by (auto simp: formulate_goal_def goal_from_gai_length goal_from_estimate_length
           split: if_splits)

lemma copy_estimate_frame:
  "m_nelem (copy_estimate s) = m_nelem s" "m_nsp (copy_estimate s) = m_nsp s"
  "m_elType (copy_estimate s) = m_elType s" "FormulaMatrix (copy_estimate s) = FormulaMatrix s"
  "m_elemAbundancesGoal (copy_estimate s) = m_elemAbundancesGoal s"
  by (simp_all add: copy_estimate_def)

lemma init_maps_frame:
  "m_nelem (init_maps s) = m_nelem s" "m_nsp (init_maps s) = m_nsp s"
  "m_elType (init_maps s) = m_elType s" "FormulaMatrix (init_maps s) = FormulaMatrix s"
  "m_elemAbundancesGoal (init_maps s) = m_elemAbundancesGoal s"
  by (simp_all add: init_maps_def)

lemma fill_phaseID_frame:
  assumes "fill_phaseID s = Inr s'"
  shows "m_nelem s' = m_nelem s" and "m_nsp s' = m_nsp s" and "m_elType s' = m_elType s"
    and "FormulaMatrix s' = FormulaMatrix s"
    and "m_elemAbundancesGoal s' = m_elemAbundancesGoal s"
  using assms
  by (auto simp: fill_phaseID_def split: if_splits sum.splits prod.splits)

subsection \<open>The charge neutrality check\<close>

lemma check_charge_neutrality_Inr:
  "check_charge_neutrality et is goal = Inr g' \<Longrightarrow>
   length g' = length goal \<and>
   (\<forall>i\<in>set is. et ! i = VCS_ELEM_TYPE_CHARGENEUTRALITY \<longrightarrow> \<bar>goal ! i\<bar> \<le> 1 / 10 ^ 9) \<and>
   (\<forall>k. g' ! k = (if k \<in> set is \<and> k < length goal \<and> et ! k = VCS_ELEM_TYPE_CHARGENEUTRALITY
                  then 0 else goal ! k))"
proof (induction "is" arbitrary: goal)
  case Nil
  then show ?case by simp
next
  case (Cons i "is")
  show ?case
  proof (cases "et ! i = VCS_ELEM_TYPE_CHARGENEUTRALITY \<and> goal ! i \<noteq> 0")
    case True
    with Cons.prems have small: "\<bar>goal ! i\<bar> \<le> 1 / 10 ^ 9"
      and rec: "check_charge_neutrality et is (goal[i := 0]) = Inr g'"
      by (auto split: if_splits)
    from Cons.IH [OF rec] have
      l: "length g' = length goal" and
      b: "\<forall>j\<in>set is. et ! j = VCS_ELEM_TYPE_CHARGENEUTRALITY \<longrightarrow> \<bar>goal[i := 0] ! j\<bar> \<le> 1 / 10 ^ 9" and
      v: "\<forall>k. g' ! k = (if k \<in> set is \<and> k < length goal \<and> et ! k = VCS_ELEM_TYPE_CHARGENEUTRALITY
                  then 0 else goal[i := 0] ! k)"
      by simp_all
    have b': "\<forall>j\<in>set (i # is). et ! j = VCS_ELEM_TYPE_CHARGENEUTRALITY \<longrightarrow> \<bar>goal ! j\<bar> \<le> 1 / 10 ^ 9"
    proof
      fix j assume "j \<in> set (i # is)"
      show "et ! j = VCS_ELEM_TYPE_CHARGENEUTRALITY \<longrightarrow> \<bar>goal ! j\<bar> \<le> 1 / 10 ^ 9"
      proof (cases "j = i")
        case True
        then show ?thesis using small by simp
      next
        case False
        with \<open>j \<in> set (i # is)\<close> b show ?thesis by (auto simp: nth_list_update)
      qed
    qed
    have v': "\<forall>k. g' ! k = (if k \<in> set (i # is) \<and> k < length goal \<and> et ! k = VCS_ELEM_TYPE_CHARGENEUTRALITY
                  then 0 else goal ! k)"
      using v True by (auto simp: nth_list_update_total)
    show ?thesis using l b' v' by blast
  next
    case False
    with Cons.prems have rec: "check_charge_neutrality et is goal = Inr g'"
      by (auto split: if_splits)
    from Cons.IH [OF rec] False show ?thesis by auto
  qed
qed

lemma check_charge_neutrality_Inl:
  "i \<in> set is \<Longrightarrow> et ! i = VCS_ELEM_TYPE_CHARGENEUTRALITY \<Longrightarrow> \<bar>goal ! i\<bar> > 1 / 10 ^ 9 \<Longrightarrow>
   \<exists>k x. check_charge_neutrality et is goal = Inl (ChargeNeutralityNonzero k x)"
proof (induction "is" arbitrary: goal)
  case Nil
  then show ?case by simp
next
  case (Cons i0 "is")
  show ?case
  proof (cases "i = i0")
    case True
    with Cons.prems show ?thesis by auto
  next
    case False
    with Cons.prems have i: "i \<in> set is" by simp
    have big: "\<bar>goal[i0 := 0] ! i\<bar> > 1 / 10 ^ 9" using Cons.prems(3) False by simp
    from Cons.IH [OF i Cons.prems(2) big] Cons.IH [OF i Cons.prems(2) Cons.prems(3)]
    show ?thesis by auto
  qed
qed

subsection \<open>The copy of the formula matrix\<close>

lemma copy_formula_row_result:
  "copy_formula_row n FM i m =
     ((\<exists>j<n. FM i j \<noteq> 0), (\<lambda>i' j'. if i' = i \<and> j' < n then FM i j' else m i' j'))"
proof (induction n)
  case 0
  then show ?case by (simp add: copy_formula_row_def)
next
  case (Suc n)
  have "copy_formula_row (Suc n) FM i m =
      (\<lambda>(nonzero, m'). (if FM i n \<noteq> 0 then True else nonzero, m'(i := (m' i)(n := FM i n))))
        (copy_formula_row n FM i m)"
    by (simp add: copy_formula_row_def)
  also have "\<dots> = ((\<exists>j<Suc n. FM i j \<noteq> 0),
      (\<lambda>i' j'. if i' = i \<and> j' < Suc n then FM i j' else m i' j'))"
    unfolding Suc.IH by (auto simp: less_Suc_eq fun_eq_iff)
  finally show ?case .
qed

lemma copy_formula_matrix_Inr:
  "copy_formula_matrix n FM is m = Inr m' \<Longrightarrow>
   (\<forall>i\<in>set is. \<exists>j<n. FM i j \<noteq> 0) \<and>
   (\<forall>i j. m' i j = (if i \<in> set is \<and> j < n then FM i j else m i j))"
proof (induction "is" arbitrary: m)
  case Nil
  then show ?case by simp
next
  case (Cons i "is")
  from Cons.prems have nz: "\<exists>j<n. FM i j \<noteq> 0"
    and rec: "copy_formula_matrix n FM is
                (\<lambda>i' j'. if i' = i \<and> j' < n then FM i j' else m i' j') = Inr m'"
    by (auto simp: copy_formula_row_result Let_def split: if_splits)
  from Cons.IH [OF rec] nz show ?case by auto
qed

lemma copy_formula_matrix_Inl:
  "i \<in> set is \<Longrightarrow> \<forall>j<n. FM i j = 0 \<Longrightarrow>
   \<exists>i0. copy_formula_matrix n FM is m = Inl (ZeroFormulaMatrix i0) \<and> (\<forall>j<n. FM i0 j = 0)"
proof (induction "is" arbitrary: m)
  case Nil
  then show ?case by simp
next
  case (Cons i0 "is")
  show ?case
  proof (cases "\<exists>j<n. FM i0 j \<noteq> 0")
    case True
    with Cons.prems have "i \<in> set is" by auto
    from Cons.IH [OF this Cons.prems(2)] True show ?thesis
      by (simp add: copy_formula_row_result Let_def)
  next
    case False
    then show ?thesis by (simp add: copy_formula_row_result Let_def)
  qed
qed

lemma sum_not_Inr_is_Inl: "(\<And>y. x \<noteq> Inr y) \<Longrightarrow> \<exists>e. x = Inl e"
  by (cases x) auto

subsection \<open>The chain of blocks\<close>

lemma VCS_SOLVE_finish_Inr:
  assumes "VCS_SOLVE_finish s = Inr s'"
  obtains s2 s3 goal fm where
    "formulate_goal (copy_estimate (s\<lparr>m_speciesUnknownType := SpeciesUnknownType s\<rparr>)) = Inr s2"
    "fill_phaseID (init_maps s2) = Inr s3"
    "check_charge_neutrality (m_elType s3) [0..<m_nelem s3] (m_elemAbundancesGoal s3) = Inr goal"
    "copy_formula_matrix (m_nelem s3) (FormulaMatrix s3) [0..<m_nsp s3] (m_formulaMatrix s3)
       = Inr fm"
    "m_elemAbundancesGoal s' = goal" "m_formulaMatrix s' = fm"
  using assms by (auto simp: VCS_SOLVE_finish_def Let_def split: sum.splits)

lemma finish_blocks_frame:
  assumes "formulate_goal (copy_estimate (s\<lparr>m_speciesUnknownType := SpeciesUnknownType s\<rparr>)) = Inr s2"
    and "fill_phaseID (init_maps s2) = Inr s3"
  shows "m_nelem s3 = m_nelem s" and "m_nsp s3 = m_nsp s" and "m_elType s3 = m_elType s"
    and "FormulaMatrix s3 = FormulaMatrix s"
    and "m_elemAbundancesGoal s3 = m_elemAbundancesGoal s2"
    and "m_nelem s \<le> length (m_elemAbundancesGoal s) \<Longrightarrow>
         length (m_elemAbundancesGoal s2) = length (m_elemAbundancesGoal s)"
proof -
  let ?s1 = "copy_estimate (s\<lparr>m_speciesUnknownType := SpeciesUnknownType s\<rparr>)"
  note f2 = formulate_goal_frame [OF assms(1)]
  note f3 = fill_phaseID_frame [OF assms(2)]
  show "m_nelem s3 = m_nelem s"
    using f3(1) f2(1) by (simp add: init_maps_frame copy_estimate_frame)
  show "m_nsp s3 = m_nsp s"
    using f3(2) f2(2) by (simp add: init_maps_frame copy_estimate_frame)
  show "m_elType s3 = m_elType s"
    using f3(3) f2(3) by (simp add: init_maps_frame copy_estimate_frame)
  show "FormulaMatrix s3 = FormulaMatrix s"
    using f3(4) f2(4) by (simp add: init_maps_frame copy_estimate_frame)
  show "m_elemAbundancesGoal s3 = m_elemAbundancesGoal s2"
    using f3(5) by (simp add: init_maps_frame)
  show "length (m_elemAbundancesGoal s2) = length (m_elemAbundancesGoal s)"
    if "m_nelem s \<le> length (m_elemAbundancesGoal s)"
    using f2(6) that by (simp add: copy_estimate_frame)
qed

text \<open>
  C3: a species \<open>i\<close> whose row of \<^verbatim>\<open>FormulaMatrix\<close> is all zero makes the copy of the
  formula matrix, and the constructor, throw "species ... has a zero formula matrix";
  after a successful construction every species has a nonzero entry in its row of
  \<^verbatim>\<open>m_formulaMatrix\<close>, which is the row of \<^verbatim>\<open>FormulaMatrix\<close>.
\<close>

theorem C3_zero_formula_row:
  assumes "i < m_nsp s"
  shows "((\<forall>j<m_nelem s. FormulaMatrix s i j = 0) \<longrightarrow>
            (\<exists>e. VCS_SOLVE_finish s = Inl e) \<and>
            (\<exists>i0. copy_formula_matrix (m_nelem s) (FormulaMatrix s) [0..<m_nsp s] m
                     = Inl (ZeroFormulaMatrix i0) \<and>
                   (\<forall>j<m_nelem s. FormulaMatrix s i0 j = 0))) \<and>
         (VCS_SOLVE_finish s = Inr s' \<longrightarrow>
            (\<exists>j<m_nelem s. m_formulaMatrix s' i j \<noteq> 0) \<and>
            (\<forall>j<m_nelem s. m_formulaMatrix s' i j = FormulaMatrix s i j))"
proof (intro conjI impI)
  assume z: "\<forall>j<m_nelem s. FormulaMatrix s i j = 0"
  have "VCS_SOLVE_finish s \<noteq> Inr y" for y
  proof
    assume fin: "VCS_SOLVE_finish s = Inr y"
    from fin obtain s2 s3 goal fm where
      b1: "formulate_goal (copy_estimate (s\<lparr>m_speciesUnknownType := SpeciesUnknownType s\<rparr>)) = Inr s2"
      and b2: "fill_phaseID (init_maps s2) = Inr s3"
      and b4: "copy_formula_matrix (m_nelem s3) (FormulaMatrix s3) [0..<m_nsp s3]
                 (m_formulaMatrix s3) = Inr fm"
      by (rule VCS_SOLVE_finish_Inr)
    note fr = finish_blocks_frame [OF b1 b2]
    from copy_formula_matrix_Inr [OF b4] assms fr(1,2,4)
    have "\<exists>j<m_nelem s. FormulaMatrix s i j \<noteq> 0" by simp
    with z show False by blast
  qed
  then show "\<exists>e. VCS_SOLVE_finish s = Inl e" by (rule sum_not_Inr_is_Inl)
  show "\<exists>i0. copy_formula_matrix (m_nelem s) (FormulaMatrix s) [0..<m_nsp s] m
                     = Inl (ZeroFormulaMatrix i0) \<and>
                   (\<forall>j<m_nelem s. FormulaMatrix s i0 j = 0)"
    using copy_formula_matrix_Inl [of i "[0..<m_nsp s]" "m_nelem s" "FormulaMatrix s" m] assms z
    by simp
next
  assume fin: "VCS_SOLVE_finish s = Inr s'"
  from fin obtain s2 s3 goal fm where
    b1: "formulate_goal (copy_estimate (s\<lparr>m_speciesUnknownType := SpeciesUnknownType s\<rparr>)) = Inr s2"
    and b2: "fill_phaseID (init_maps s2) = Inr s3"
    and b4: "copy_formula_matrix (m_nelem s3) (FormulaMatrix s3) [0..<m_nsp s3]
               (m_formulaMatrix s3) = Inr fm"
    and f: "m_formulaMatrix s' = fm"
    by (rule VCS_SOLVE_finish_Inr)
  note fr = finish_blocks_frame [OF b1 b2]
  from copy_formula_matrix_Inr [OF b4] assms fr(1,2,4)
  have nz: "\<exists>j<m_nelem s. FormulaMatrix s i j \<noteq> 0"
    and eq: "\<forall>j<m_nelem s. fm i j = FormulaMatrix s i j"
    by simp_all
  show "\<forall>j<m_nelem s. m_formulaMatrix s' i j = FormulaMatrix s i j"
    using eq f by simp
  then show "\<exists>j<m_nelem s. m_formulaMatrix s' i j \<noteq> 0"
    using nz by auto
qed

lemmas example_defs =
  example_solver_def example_matrix_def example_gas_def example_electrode_def example_mix_def

lemmas finish_defs =
  VCS_SOLVE_finish_def copy_estimate_def formulate_goal_def goal_from_gai_def
  init_maps_def fill_phaseID_def copy_formula_row_def Let_def upt_rec

text \<open>
  C3 on the concrete problem, and on the problem with row 1 zeroed.
\<close>

theorem C3_zero_formula_row_witness:
  "(\<exists>e. VCS_SOLVE_finish
          (example_solver\<lparr>FormulaMatrix := (\<lambda>i j. if i = 1 then 0 else example_matrix i j)\<rparr>)
        = Inl e) \<and>
   (\<exists>s'. VCS_SOLVE_finish example_solver = Inr s' \<and>
         (\<exists>j<m_nelem example_solver. m_formulaMatrix s' 1 j \<noteq> 0))"
proof
  let ?z = "example_solver\<lparr>FormulaMatrix := (\<lambda>i j. if i = 1 then 0 else example_matrix i j)\<rparr>"
  have h: "1 < m_nsp ?z" by (simp add: example_defs)
  have "\<forall>j<m_nelem ?z. FormulaMatrix ?z 1 j = 0" by simp
  with C3_zero_formula_row [OF h] show "\<exists>e. VCS_SOLVE_finish ?z = Inl e"
    by blast
next
  obtain s' where fin: "VCS_SOLVE_finish example_solver = Inr s'"
    by (simp add: finish_defs example_defs)
  have h: "1 < m_nsp example_solver" by (simp add: example_defs)
  from C3_zero_formula_row [OF h, of _ s'] fin
  show "\<exists>s'. VCS_SOLVE_finish example_solver = Inr s' \<and>
         (\<exists>j<m_nelem example_solver. m_formulaMatrix s' 1 j \<noteq> 0)"
    by blast
qed

subsection \<open>The goal vector and the charge neutrality check on the chain\<close>





lemma check_charge_neutrality_Inl_exact:
  "distinct is \<Longrightarrow> check_charge_neutrality et is goal = Inl e \<Longrightarrow>
   \<exists>k\<in>set is. et ! k = VCS_ELEM_TYPE_CHARGENEUTRALITY \<and> \<bar>goal ! k\<bar> > 1 / 10 ^ 9 \<and>
              e = ChargeNeutralityNonzero k (goal ! k)"
proof (induction "is" arbitrary: goal)
  case Nil
  then show ?case by simp
next
  case (Cons i0 "is")
  have d: "distinct is" "i0 \<notin> set is" using Cons.prems(1) by simp_all
  show ?case
  proof (cases "et ! i0 = VCS_ELEM_TYPE_CHARGENEUTRALITY \<and> goal ! i0 \<noteq> 0")
    case True
    show ?thesis
    proof (cases "\<bar>goal ! i0\<bar> > 1 / 10 ^ 9")
      case big: True
      then have "e = ChargeNeutralityNonzero i0 (goal ! i0)"
        using Cons.prems(2) True by simp
      with big True show ?thesis by simp
    next
      case False
      then have rec: "check_charge_neutrality et is (goal[i0 := 0]) = Inl e"
        using Cons.prems(2) True by simp
      from Cons.IH [OF d(1) rec] obtain k where k: "k \<in> set is"
        "et ! k = VCS_ELEM_TYPE_CHARGENEUTRALITY" "\<bar>goal[i0 := 0] ! k\<bar> > 1 / 10 ^ 9"
        "e = ChargeNeutralityNonzero k (goal[i0 := 0] ! k)"
        by blast
      have "k \<noteq> i0" using k(1) d(2) by blast
      then have "goal[i0 := 0] ! k = goal ! k" by simp
      with k show ?thesis by auto
    qed
  next
    case False
    then have rec: "check_charge_neutrality et is goal = Inl e"
      using Cons.prems(2) by (auto split: if_splits)
    from Cons.IH [OF d(1) rec] show ?thesis by auto
  qed
qed

lemma check_charge_neutrality_accept:
  "\<forall>i\<in>set is. et ! i = VCS_ELEM_TYPE_CHARGENEUTRALITY \<longrightarrow> \<bar>goal ! i\<bar> \<le> 1 / 10 ^ 9 \<Longrightarrow>
   \<exists>g'. check_charge_neutrality et is goal = Inr g'"
proof (induction "is" arbitrary: goal)
  case Nil
  then show ?case by simp
next
  case (Cons i0 "is")
  have small: "\<forall>i\<in>set is. et ! i = VCS_ELEM_TYPE_CHARGENEUTRALITY \<longrightarrow>
                 \<bar>goal[i0 := 0] ! i\<bar> \<le> 1 / 10 ^ 9"
    using Cons.prems by (auto simp: nth_list_update_total)
  have same: "\<forall>i\<in>set is. et ! i = VCS_ELEM_TYPE_CHARGENEUTRALITY \<longrightarrow> \<bar>goal ! i\<bar> \<le> 1 / 10 ^ 9"
    using Cons.prems by simp
  have here: "et ! i0 = VCS_ELEM_TYPE_CHARGENEUTRALITY \<longrightarrow> \<not> \<bar>goal ! i0\<bar> > 1 / 10 ^ 9"
    using Cons.prems by auto
  from Cons.IH [OF small] Cons.IH [OF same] here show ?case by auto
qed

lemma check_charge_neutrality_upt:
  assumes "\<forall>k<n. et ! k = VCS_ELEM_TYPE_CHARGENEUTRALITY \<longrightarrow> \<bar>g ! k\<bar> \<le> 1 / 10 ^ 9"
  shows "check_charge_neutrality et [0..<n] g =
           Inr (map (\<lambda>k. if k < n \<and> et ! k = VCS_ELEM_TYPE_CHARGENEUTRALITY then 0 else g ! k)
                  [0..<length g])"
proof -
  have "\<forall>i\<in>set [0..<n]. et ! i = VCS_ELEM_TYPE_CHARGENEUTRALITY \<longrightarrow> \<bar>g ! i\<bar> \<le> 1 / 10 ^ 9"
    using assms by simp
  then obtain g' where r: "check_charge_neutrality et [0..<n] g = Inr g'"
    using check_charge_neutrality_accept by blast
  from check_charge_neutrality_Inr [OF r] have
    l: "length g' = length g" and
    v: "\<forall>k. g' ! k = (if k \<in> set [0..<n] \<and> k < length g \<and> et ! k = VCS_ELEM_TYPE_CHARGENEUTRALITY
                       then 0 else g ! k)"
    by simp_all
  have "g' = map (\<lambda>k. if k < n \<and> et ! k = VCS_ELEM_TYPE_CHARGENEUTRALITY then 0 else g ! k)
                  [0..<length g]"
    using l v by (intro nth_equalityI) auto
  with r show ?thesis by simp
qed

lemma copy_formula_matrix_accept:
  "\<forall>i\<in>set is. \<exists>j<n. FM i j \<noteq> 0 \<Longrightarrow> \<exists>m'. copy_formula_matrix n FM is m = Inr m'"
proof (induction "is" arbitrary: m)
  case Nil
  then show ?case by simp
next
  case (Cons i "is")
  have nz: "\<exists>j<n. FM i j \<noteq> 0" and rest: "\<forall>i\<in>set is. \<exists>j<n. FM i j \<noteq> 0"
    using Cons.prems by simp_all
  from Cons.IH [OF rest] nz show ?case
    by (simp add: copy_formula_row_result Let_def)
qed

text \<open>
  C4: for an element \<open>i\<close> of type charge neutrality. After a successful construction its
  goal abundance is 0. A goal abundance of absolute value above \<open>10\<^sup>-\<^sup>9\<close> makes the
  constructor throw, and makes the check throw \<open>ChargeNeutralityNonzero\<close> for a charge
  neutrality element \<open>k\<close> whose residual is above \<open>10\<^sup>-\<^sup>9\<close>, with that residual as its
  value. When the check passes, the residual of \<open>i\<close> is at most \<open>10\<^sup>-\<^sup>9\<close> and the entry
  is 0 afterwards. Conversely, when the residuals of all charge neutrality elements are at
  most \<open>10\<^sup>-\<^sup>9\<close> in absolute value (nonzero ones included), the check passes and returns
  the goal vector with exactly these entries set to 0 and all others unchanged; and when
  in addition the blocks before the check pass and every species has a nonzero formula
  matrix row, the construction succeeds with that goal vector.
\<close>

theorem C4_charge_neutrality:
  assumes "m_nelem s \<le> length (m_elemAbundancesGoal s)"
    and "i < m_nelem s"
    and "m_elType s ! i = VCS_ELEM_TYPE_CHARGENEUTRALITY"
  shows "(VCS_SOLVE_finish s = Inr s' \<longrightarrow> m_elemAbundancesGoal s' ! i = 0) \<and>
         (formulate_goal (copy_estimate (s\<lparr>m_speciesUnknownType := SpeciesUnknownType s\<rparr>))
            = Inr s2 \<and> \<bar>m_elemAbundancesGoal s2 ! i\<bar> > 1 / 10 ^ 9
          \<longrightarrow> (\<exists>e. VCS_SOLVE_finish s = Inl e)) \<and>
         (\<bar>g ! i\<bar> > 1 / 10 ^ 9 \<longrightarrow>
            (\<exists>k<m_nelem s. m_elType s ! k = VCS_ELEM_TYPE_CHARGENEUTRALITY \<and>
                  \<bar>g ! k\<bar> > 1 / 10 ^ 9 \<and>
                  check_charge_neutrality (m_elType s) [0..<m_nelem s] g
                    = Inl (ChargeNeutralityNonzero k (g ! k)))) \<and>
         (check_charge_neutrality (m_elType s) [0..<m_nelem s] g = Inr g' \<and> i < length g
          \<longrightarrow> \<bar>g ! i\<bar> \<le> 1 / 10 ^ 9 \<and> g' ! i = 0) \<and>
         ((\<forall>k<m_nelem s. m_elType s ! k = VCS_ELEM_TYPE_CHARGENEUTRALITY \<longrightarrow>
                 \<bar>g ! k\<bar> \<le> 1 / 10 ^ 9)
          \<longrightarrow> check_charge_neutrality (m_elType s) [0..<m_nelem s] g =
                Inr (map (\<lambda>k. if k < m_nelem s \<and> m_elType s ! k = VCS_ELEM_TYPE_CHARGENEUTRALITY
                              then 0 else g ! k) [0..<length g])) \<and>
         (formulate_goal (copy_estimate (s\<lparr>m_speciesUnknownType := SpeciesUnknownType s\<rparr>))
            = Inr s2 \<and>
          fill_phaseID (init_maps s2) = Inr s3 \<and>
          (\<forall>r<m_nsp s. \<exists>j<m_nelem s. FormulaMatrix s r j \<noteq> 0) \<and>
          (\<forall>k<m_nelem s. m_elType s ! k = VCS_ELEM_TYPE_CHARGENEUTRALITY \<longrightarrow>
                 \<bar>m_elemAbundancesGoal s2 ! k\<bar> \<le> 1 / 10 ^ 9)
          \<longrightarrow> (\<exists>y. VCS_SOLVE_finish s = Inr y \<and>
                 (\<forall>k<m_nelem s. m_elemAbundancesGoal y ! k =
                    (if m_elType s ! k = VCS_ELEM_TYPE_CHARGENEUTRALITY then 0
                     else m_elemAbundancesGoal s2 ! k))))"
proof (intro conjI impI)
  assume fin: "VCS_SOLVE_finish s = Inr s'"
  from fin obtain s2' s3' goal fm' where
    b1: "formulate_goal (copy_estimate (s\<lparr>m_speciesUnknownType := SpeciesUnknownType s\<rparr>)) = Inr s2'"
    and b2: "fill_phaseID (init_maps s2') = Inr s3'"
    and b3: "check_charge_neutrality (m_elType s3') [0..<m_nelem s3'] (m_elemAbundancesGoal s3') = Inr goal"
    and g: "m_elemAbundancesGoal s' = goal"
    by (rule VCS_SOLVE_finish_Inr)
  note fr = finish_blocks_frame [OF b1 b2]
  have "i < length (m_elemAbundancesGoal s3')"
    using fr(5) fr(6) assms(1,2) by simp
  with check_charge_neutrality_Inr [OF b3] assms(2,3) fr(1,3)
  have "goal ! i = 0" by simp
  then show "m_elemAbundancesGoal s' ! i = 0" using g by simp
next
  assume a: "formulate_goal (copy_estimate (s\<lparr>m_speciesUnknownType := SpeciesUnknownType s\<rparr>))
            = Inr s2 \<and> \<bar>m_elemAbundancesGoal s2 ! i\<bar> > 1 / 10 ^ 9"
  have "VCS_SOLVE_finish s \<noteq> Inr y" for y
  proof
    assume fin: "VCS_SOLVE_finish s = Inr y"
    from fin obtain s2' s3' goal fm' where
      b1: "formulate_goal (copy_estimate (s\<lparr>m_speciesUnknownType := SpeciesUnknownType s\<rparr>)) = Inr s2'"
      and b2: "fill_phaseID (init_maps s2') = Inr s3'"
      and b3: "check_charge_neutrality (m_elType s3') [0..<m_nelem s3'] (m_elemAbundancesGoal s3') = Inr goal"
      by (rule VCS_SOLVE_finish_Inr)
    have s2: "s2' = s2" using a b1 by simp
    note fr = finish_blocks_frame [OF b1 b2]
    from check_charge_neutrality_Inr [OF b3] assms(2,3) fr(1,3)
    have "\<bar>m_elemAbundancesGoal s3' ! i\<bar> \<le> 1 / 10 ^ 9" by simp
    then show False using a fr(5) s2 by simp
  qed
  then show "\<exists>e. VCS_SOLVE_finish s = Inl e" by (rule sum_not_Inr_is_Inl)
next
  assume big: "\<bar>g ! i\<bar> > 1 / 10 ^ 9"
  have "\<exists>k x. check_charge_neutrality (m_elType s) [0..<m_nelem s] g
                      = Inl (ChargeNeutralityNonzero k x)"
    using check_charge_neutrality_Inl [of i "[0..<m_nelem s]" "m_elType s" g] assms(2,3) big
    by simp
  then obtain e where e: "check_charge_neutrality (m_elType s) [0..<m_nelem s] g = Inl e"
    by blast
  from check_charge_neutrality_Inl_exact [OF distinct_upt e] obtain k where
    "k \<in> set [0..<m_nelem s]" "m_elType s ! k = VCS_ELEM_TYPE_CHARGENEUTRALITY"
    "\<bar>g ! k\<bar> > 1 / 10 ^ 9" "e = ChargeNeutralityNonzero k (g ! k)"
    by blast
  then show "\<exists>k<m_nelem s. m_elType s ! k = VCS_ELEM_TYPE_CHARGENEUTRALITY \<and>
                  \<bar>g ! k\<bar> > 1 / 10 ^ 9 \<and>
                  check_charge_neutrality (m_elType s) [0..<m_nelem s] g
                    = Inl (ChargeNeutralityNonzero k (g ! k))"
    using e by auto
next
  assume a: "check_charge_neutrality (m_elType s) [0..<m_nelem s] g = Inr g' \<and> i < length g"
  then have r: "check_charge_neutrality (m_elType s) [0..<m_nelem s] g = Inr g'" by simp
  from check_charge_neutrality_Inr [OF r] a assms(2,3)
  show "\<bar>g ! i\<bar> \<le> 1 / 10 ^ 9" by simp
  from check_charge_neutrality_Inr [OF r] a assms(2,3)
  show "g' ! i = 0" by simp
next
  assume "\<forall>k<m_nelem s. m_elType s ! k = VCS_ELEM_TYPE_CHARGENEUTRALITY \<longrightarrow>
                 \<bar>g ! k\<bar> \<le> 1 / 10 ^ 9"
  then show "check_charge_neutrality (m_elType s) [0..<m_nelem s] g =
                Inr (map (\<lambda>k. if k < m_nelem s \<and> m_elType s ! k = VCS_ELEM_TYPE_CHARGENEUTRALITY
                              then 0 else g ! k) [0..<length g])"
    by (rule check_charge_neutrality_upt)
next
  assume a: "formulate_goal (copy_estimate (s\<lparr>m_speciesUnknownType := SpeciesUnknownType s\<rparr>))
            = Inr s2 \<and>
          fill_phaseID (init_maps s2) = Inr s3 \<and>
          (\<forall>r<m_nsp s. \<exists>j<m_nelem s. FormulaMatrix s r j \<noteq> 0) \<and>
          (\<forall>k<m_nelem s. m_elType s ! k = VCS_ELEM_TYPE_CHARGENEUTRALITY \<longrightarrow>
                 \<bar>m_elemAbundancesGoal s2 ! k\<bar> \<le> 1 / 10 ^ 9)"
  then have b1: "formulate_goal (copy_estimate (s\<lparr>m_speciesUnknownType := SpeciesUnknownType s\<rparr>))
            = Inr s2"
    and b2: "fill_phaseID (init_maps s2) = Inr s3"
    and rows: "\<forall>r<m_nsp s. \<exists>j<m_nelem s. FormulaMatrix s r j \<noteq> 0"
    and small: "\<forall>k<m_nelem s. m_elType s ! k = VCS_ELEM_TYPE_CHARGENEUTRALITY \<longrightarrow>
                 \<bar>m_elemAbundancesGoal s2 ! k\<bar> \<le> 1 / 10 ^ 9"
    by simp_all
  note fr = finish_blocks_frame [OF b1 b2]
  have "\<forall>r\<in>set [0..<m_nsp s3]. \<exists>j<m_nelem s3. FormulaMatrix s3 r j \<noteq> 0"
    unfolding fr(1,2,4) using rows by simp
  then obtain fm where
    b4: "copy_formula_matrix (m_nelem s3) (FormulaMatrix s3) [0..<m_nsp s3] (m_formulaMatrix s3)
            = Inr fm"
    using copy_formula_matrix_accept by blast
  let ?G = "map (\<lambda>k. if k < m_nelem s \<and> m_elType s ! k = VCS_ELEM_TYPE_CHARGENEUTRALITY
                      then 0 else m_elemAbundancesGoal s2 ! k)
              [0..<length (m_elemAbundancesGoal s2)]"
  have b3: "check_charge_neutrality (m_elType s3) [0..<m_nelem s3] (m_elemAbundancesGoal s3)
              = Inr ?G"
    unfolding fr(1,3,5) using small by (rule check_charge_neutrality_upt)
  let ?y = "s3\<lparr>m_elemAbundancesGoal := ?G, m_formulaMatrix := fm,
                m_VolPhaseList :=
                  fold (\<lambda>iph l. l[iph := VPhaseList s3 ! iph]) [0..<m_numPhases s3]
                    (m_VolPhaseList s3)\<rparr>"
  have fin: "VCS_SOLVE_finish s = Inr ?y"
    by (simp add: VCS_SOLVE_finish_def Let_def b1 b2 b3 b4)
  have len: "m_nelem s \<le> length (m_elemAbundancesGoal s2)"
    using fr(6) assms(1) by simp
  have "\<forall>k<m_nelem s. m_elemAbundancesGoal ?y ! k =
                    (if m_elType s ! k = VCS_ELEM_TYPE_CHARGENEUTRALITY then 0
                     else m_elemAbundancesGoal s2 ! k)"
    using len by simp
  with fin show "\<exists>y. VCS_SOLVE_finish s = Inr y \<and>
                 (\<forall>k<m_nelem s. m_elemAbundancesGoal y ! k =
                    (if m_elType s ! k = VCS_ELEM_TYPE_CHARGENEUTRALITY then 0
                     else m_elemAbundancesGoal s2 ! k))"
    by blast
qed


text \<open>
  C4 on the concrete problem: a residual of \<open>10\<^sup>-\<^sup>1\<^sup>0\<close> is accepted and clamped to 0 by the
  check and by the constructor, which succeeds; a residual of 1 is fatal.
\<close>

theorem C4_charge_neutrality_witness:
  "check_charge_neutrality (m_elType example_solver) [0..<m_nelem example_solver]
     [5, 1 / 10 ^ 10] = Inr [5, 0] \<and>
   (\<exists>s'. VCS_SOLVE_finish (example_solver\<lparr>gai := [5, 1 / 10 ^ 10]\<rparr>) = Inr s' \<and>
         m_elemAbundancesGoal s' ! 0 = 5 \<and> m_elemAbundancesGoal s' ! 1 = 0) \<and>
   (\<exists>e. VCS_SOLVE_finish (example_solver\<lparr>gai := [5, 1]\<rparr>) = Inl e)"
proof (intro conjI)
  let ?s = "example_solver"
  have h: "m_nelem ?s \<le> length (m_elemAbundancesGoal ?s)" "1 < m_nelem ?s"
    "m_elType ?s ! 1 = VCS_ELEM_TYPE_CHARGENEUTRALITY"
    by (simp_all add: example_defs)
  have small: "\<forall>k<m_nelem ?s. m_elType ?s ! k = VCS_ELEM_TYPE_CHARGENEUTRALITY \<longrightarrow>
      \<bar>[5, 1 / 10 ^ 10] ! k\<bar> \<le> (1::real) / 10 ^ 9"
    by (auto simp: example_defs less_Suc_eq numeral_2_eq_2)
  have "check_charge_neutrality (m_elType ?s) [0..<m_nelem ?s] [5, 1 / 10 ^ 10] =
      Inr (map (\<lambda>k. if k < m_nelem ?s \<and> m_elType ?s ! k = VCS_ELEM_TYPE_CHARGENEUTRALITY
                    then 0 else [5, 1 / 10 ^ 10] ! k) [0..<length [5, 1 / 10 ^ 10 :: real]])"
    using C4_charge_neutrality [OF h, of _ _ "[5, 1 / 10 ^ 10]"] small by blast
  then show "check_charge_neutrality (m_elType ?s) [0..<m_nelem ?s] [5, 1 / 10 ^ 10]
      = Inr [5, 0]"
    by (simp add: example_defs upt_rec)
next
  let ?s = "example_solver\<lparr>gai := [5, 1 / 10 ^ 10]\<rparr>"
  let ?s1 = "copy_estimate (?s\<lparr>m_speciesUnknownType := SpeciesUnknownType ?s\<rparr>)"
  let ?s2 = "?s1\<lparr>m_elemAbundancesGoal := [5, 1 / 10 ^ 10]\<rparr>"
  have h: "m_nelem ?s \<le> length (m_elemAbundancesGoal ?s)" "1 < m_nelem ?s"
    "m_elType ?s ! 1 = VCS_ELEM_TYPE_CHARGENEUTRALITY"
    by (simp_all add: example_defs)
  have b1: "formulate_goal ?s1 = Inr ?s2"
    by (simp add: finish_defs example_defs)
  have "\<exists>s3. fill_phaseID (init_maps ?s2) = Inr s3"
    by (simp add: finish_defs example_defs)
  then obtain s3 where b2: "fill_phaseID (init_maps ?s2) = Inr s3" by blast
  have rows: "\<forall>r<m_nsp ?s. \<exists>j<m_nelem ?s. FormulaMatrix ?s r j \<noteq> 0"
  proof (intro allI impI)
    fix r assume "r < m_nsp ?s"
    then consider "r = 0" | "r = 1" | "r = 2" by (auto simp: example_defs less_Suc_eq numeral_3_eq_3)
    then show "\<exists>j<m_nelem ?s. FormulaMatrix ?s r j \<noteq> 0"
    proof cases
      case 1
      then show ?thesis by (intro exI [of _ 0]) (simp add: example_defs)
    next
      case 2
      then show ?thesis by (intro exI [of _ 0]) (simp add: example_defs)
    next
      case 3
      then show ?thesis by (intro exI [of _ 1]) (simp add: example_defs)
    qed
  qed
  have small: "\<forall>k<m_nelem ?s. m_elType ?s ! k = VCS_ELEM_TYPE_CHARGENEUTRALITY \<longrightarrow>
      \<bar>m_elemAbundancesGoal ?s2 ! k\<bar> \<le> 1 / 10 ^ 9"
    by (auto simp: example_defs less_Suc_eq numeral_2_eq_2)
  from C4_charge_neutrality [OF h, of _ ?s2 _ _ s3] b1 b2 rows small
  obtain y where fin: "VCS_SOLVE_finish ?s = Inr y"
    and g: "\<forall>k<m_nelem ?s. m_elemAbundancesGoal y ! k =
                    (if m_elType ?s ! k = VCS_ELEM_TYPE_CHARGENEUTRALITY then 0
                     else m_elemAbundancesGoal ?s2 ! k)"
    by blast
  have n: "0 < m_nelem ?s" "1 < m_nelem ?s" by (simp_all add: example_defs)
  have t: "m_elType ?s ! 0 \<noteq> VCS_ELEM_TYPE_CHARGENEUTRALITY"
    "m_elType ?s ! 1 = VCS_ELEM_TYPE_CHARGENEUTRALITY"
    by (simp_all add: example_defs)
  have "m_elemAbundancesGoal y ! 0 = 5" using g n(1) t(1) by simp
  moreover have "m_elemAbundancesGoal y ! 1 = 0" using g n(2) t(2) by simp
  ultimately show "\<exists>s'. VCS_SOLVE_finish ?s = Inr s' \<and>
         m_elemAbundancesGoal s' ! 0 = 5 \<and> m_elemAbundancesGoal s' ! 1 = 0"
    using fin by blast
next
  let ?t = "example_solver\<lparr>gai := [5, 1]\<rparr>"
  let ?t1 = "copy_estimate (?t\<lparr>m_speciesUnknownType := SpeciesUnknownType ?t\<rparr>)"
  have h: "m_nelem ?t \<le> length (m_elemAbundancesGoal ?t)" "1 < m_nelem ?t"
    "m_elType ?t ! 1 = VCS_ELEM_TYPE_CHARGENEUTRALITY"
    by (simp_all add: example_defs)
  have f: "formulate_goal ?t1 = Inr (?t1\<lparr>m_elemAbundancesGoal := [5, 1]\<rparr>)"
    by (simp add: finish_defs example_defs)
  have "\<bar>m_elemAbundancesGoal (?t1\<lparr>m_elemAbundancesGoal := [5, 1]\<rparr>) ! 1\<bar> > 1 / 10 ^ 9"
    by simp
  with C4_charge_neutrality [OF h, of _ "?t1\<lparr>m_elemAbundancesGoal := [5, 1]\<rparr>"] f
  show "\<exists>e. VCS_SOLVE_finish ?t = Inl e"
    by blast
qed

subsection \<open>The initial mole fractions\<close>








section \<open>Properties of vcs\_prob\_update\<close>

subsection \<open>The loop over the species\<close>

lemma find_species_start: "js \<noteq> [] \<Longrightarrow> find_species smi i js k1 = find_species smi i js 0"
  by (cases js) simp_all

lemma find_species_unique:
  "j \<in> set js \<Longrightarrow> smi ! j = i \<Longrightarrow> (\<And>j'. j' \<in> set js \<Longrightarrow> smi ! j' = i \<Longrightarrow> j' = j) \<Longrightarrow>
   find_species smi i js k1 = j"
proof (induction js arbitrary: k1)
  case Nil
  then show ?case by simp
next
  case (Cons j0 js)
  show ?case
  proof (cases "smi ! j0 = i")
    case True
    have "j0 = j" by (rule Cons.prems(3)) (simp_all add: True)
    then show ?thesis using True by simp
  next
    case False
    have jn: "j \<noteq> j0" using False Cons.prems(2) by blast
    have mem: "j \<in> set js" using Cons.prems(1) jn by simp
    have "find_species smi i js j0 = j"
    proof (rule Cons.IH [OF mem Cons.prems(2)])
      fix j' assume "j' \<in> set js" "smi ! j' = i"
      then show "j' = j" using Cons.prems(3) [of j'] by simp
    qed
    then show ?thesis using False by simp
  qed
qed

lemma update_species_apply:
  "update_species s i (k1, ws, gs) =
     (find_species (m_speciesMapIndex s) i [0..<m_nsp s] k1,
      ws[i := if SpeciesUnknownType s ! i \<noteq> VCS_SPECIES_TYPE_INTERFACIALVOLTAGE
              then m_molNumSpecies_old s ! find_species (m_speciesMapIndex s) i [0..<m_nsp s] k1
              else 0],
      gs[i := m_feSpecies_old s ! find_species (m_speciesMapIndex s) i [0..<m_nsp s] k1])"
  by (simp add: update_species_def Let_def)


lemma update_species_fold:
  "n \<le> m_nsp s \<Longrightarrow>
   \<exists>k. fold (update_species s) [0..<n] (k0, ws, gs) =
     (k,
      map (\<lambda>i. if i < n
                then (if SpeciesUnknownType s ! i \<noteq> VCS_SPECIES_TYPE_INTERFACIALVOLTAGE
                      then m_molNumSpecies_old s !
                             find_species (m_speciesMapIndex s) i [0..<m_nsp s] 0
                      else 0)
                else ws ! i) [0..<length ws],
      map (\<lambda>i. if i < n
                then m_feSpecies_old s ! find_species (m_speciesMapIndex s) i [0..<m_nsp s] 0
                else gs ! i) [0..<length gs])"
proof (induction n)
  case 0
  then show ?case by (simp add: map_nth)
next
  case (Suc n)
  let ?F = "\<lambda>i. find_species (m_speciesMapIndex s) i [0..<m_nsp s] 0"
  let ?W = "\<lambda>m. map (\<lambda>i. if i < m
                then (if SpeciesUnknownType s ! i \<noteq> VCS_SPECIES_TYPE_INTERFACIALVOLTAGE
                      then m_molNumSpecies_old s ! ?F i else 0)
                else ws ! i) [0..<length ws]"
  let ?G = "\<lambda>m. map (\<lambda>i. if i < m then m_feSpecies_old s ! ?F i else gs ! i) [0..<length gs]"
  from Suc obtain k where r: "fold (update_species s) [0..<n] (k0, ws, gs) = (k, ?W n, ?G n)"
    by auto
  have ne: "[0..<m_nsp s] \<noteq> []" using Suc.prems by simp
  have k1: "find_species (m_speciesMapIndex s) n [0..<m_nsp s] k = ?F n"
    using ne by (rule find_species_start)
  have e1: "fold (update_species s) [0..<Suc n] (k0, ws, gs) = update_species s n (k, ?W n, ?G n)"
    using r by simp
  have e2: "update_species s n (k, ?W n, ?G n) =
      (?F n,
       (?W n)[n := if SpeciesUnknownType s ! n \<noteq> VCS_SPECIES_TYPE_INTERFACIALVOLTAGE
                   then m_molNumSpecies_old s ! ?F n else 0],
       (?G n)[n := m_feSpecies_old s ! ?F n])"
    unfolding update_species_apply k1 ..
  have uw: "(?W n)[n := if SpeciesUnknownType s ! n \<noteq> VCS_SPECIES_TYPE_INTERFACIALVOLTAGE
                   then m_molNumSpecies_old s ! ?F n else 0] = ?W (Suc n)"
    by (intro nth_equalityI) (auto simp: nth_list_update less_Suc_eq)
  have ug: "(?G n)[n := m_feSpecies_old s ! ?F n] = ?G (Suc n)"
    by (intro nth_equalityI) (auto simp: nth_list_update less_Suc_eq)
  have "fold (update_species s) [0..<Suc n] (k0, ws, gs) = (?F n, ?W (Suc n), ?G (Suc n))"
    unfolding e1 e2 uw ug ..
  then show ?case by blast
qed

lemma update_all_species_w:
  assumes "i < m_nsp s" and "i < length (w s)"
  shows "fst (snd (update_all_species s)) ! i =
     (if SpeciesUnknownType s ! i \<noteq> VCS_SPECIES_TYPE_INTERFACIALVOLTAGE
      then m_molNumSpecies_old s ! find_species (m_speciesMapIndex s) i [0..<m_nsp s] 0
      else 0)"
proof -
  obtain k where "fold (update_species s) [0..<m_nsp s] (0, w s, m_gibbsSpecies s) =
     (k,
      map (\<lambda>i. if i < m_nsp s
                then (if SpeciesUnknownType s ! i \<noteq> VCS_SPECIES_TYPE_INTERFACIALVOLTAGE
                      then m_molNumSpecies_old s !
                             find_species (m_speciesMapIndex s) i [0..<m_nsp s] 0
                      else 0)
                else w s ! i) [0..<length (w s)],
      map (\<lambda>i. if i < m_nsp s
                then m_feSpecies_old s ! find_species (m_speciesMapIndex s) i [0..<m_nsp s] 0
                else m_gibbsSpecies s ! i) [0..<length (m_gibbsSpecies s)])"
    using update_species_fold [of "m_nsp s" s 0 "w s" "m_gibbsSpecies s"] by auto
  then show ?thesis
    using assms by (simp add: update_all_species_def)
qed

subsection \<open>The loop over the phases\<close>

lemma check_phase_species_Inr:
  "check_phase_species dEq molNum ws pub v ks (mfs, sm) = Inr (mfs', sm') \<Longrightarrow>
   length mfs' = length mfs \<and>
   sm' = sm + (\<Sum>k\<leftarrow>ks. if speciesUnknownType pub ! k \<noteq> VCS_SPECIES_TYPE_INTERFACIALVOLTAGE
                         then ws ! (spGlobalIndexVCS pub ! k) else 0) \<and>
   (\<forall>k\<in>set ks. spGlobalIndexVCS pub ! k < length mfs \<longrightarrow>
        dEq (moleFractions pub ! k) (moleFractions v ! k)) \<and>
   (\<forall>k\<in>set ks. phiVarIndex pub = k \<longrightarrow>
        dEq (electricPotential pub) (molNum ! (spGlobalIndexVCS v ! k)))"
proof (induction ks arbitrary: mfs sm)
  case Nil
  then show ?case by simp
next
  case (Cons k ks)
  let ?kT = "spGlobalIndexVCS pub ! k"
  let ?m = "mfs[?kT := moleFractions pub ! k]"
  let ?sm = "if speciesUnknownType pub ! k \<noteq> VCS_SPECIES_TYPE_INTERFACIALVOLTAGE
             then sm + ws ! ?kT else sm"
  from Cons.prems have
    volt: "phiVarIndex pub = k \<longrightarrow> dEq (electricPotential pub) (molNum ! (spGlobalIndexVCS v ! k))"
    and frac: "dEq (?m ! ?kT) (moleFractions v ! k)"
    and rec: "check_phase_species dEq molNum ws pub v ks (?m, ?sm) = Inr (mfs', sm')"
    by (auto simp: Let_def split: if_splits)
  from Cons.IH [OF rec] have
    l: "length mfs' = length mfs" and
    s: "sm' = ?sm + (\<Sum>k\<leftarrow>ks. if speciesUnknownType pub ! k \<noteq> VCS_SPECIES_TYPE_INTERFACIALVOLTAGE
                         then ws ! (spGlobalIndexVCS pub ! k) else 0)" and
    f: "\<forall>k\<in>set ks. spGlobalIndexVCS pub ! k < length mfs \<longrightarrow>
        dEq (moleFractions pub ! k) (moleFractions v ! k)" and
    p: "\<forall>k\<in>set ks. phiVarIndex pub = k \<longrightarrow>
        dEq (electricPotential pub) (molNum ! (spGlobalIndexVCS v ! k))"
    by simp_all
  have f0: "?kT < length mfs \<longrightarrow> dEq (moleFractions pub ! k) (moleFractions v ! k)"
    using frac by auto
  show ?case using l s f p f0 volt by auto
qed

lemma update_phase_Inr:
  assumes "update_phase dEq setMFS molNum ws v pub0 m0 = Inr (m1, pub)"
  shows "setMFS (totalMoles v) (moleFractions v) (publish_phase v pub0) = Inr pub"
    and "length m1 = length m0"
    and "\<forall>k<nSpecies pub. spGlobalIndexVCS pub ! k < length m0 \<longrightarrow>
           dEq (moleFractions pub ! k) (moleFractions v ! k)"
    and "\<forall>k<nSpecies pub. phiVarIndex pub = k \<longrightarrow>
           dEq (electricPotential pub) (molNum ! (spGlobalIndexVCS v ! k))"
    and "dEq (totalMolesInert pub +
              (\<Sum>k\<leftarrow>[0..<nSpecies pub].
                 if speciesUnknownType pub ! k \<noteq> VCS_SPECIES_TYPE_INTERFACIALVOLTAGE
                 then ws ! (spGlobalIndexVCS pub ! k) else 0))
             (totalMoles v)"
proof -
  from assms obtain sm where
    a: "setMFS (totalMoles v) (moleFractions v) (publish_phase v pub0) = Inr pub"
    and b: "check_phase_species dEq molNum ws pub v [0..<nSpecies pub]
              (m0, totalMolesInert pub) = Inr (m1, sm)"
    and c: "dEq sm (totalMoles v)"
    by (auto simp: update_phase_def split: sum.splits if_splits)
  note r = check_phase_species_Inr [OF b]
  show "setMFS (totalMoles v) (moleFractions v) (publish_phase v pub0) = Inr pub" by (rule a)
  show "length m1 = length m0" using r by simp
  show "\<forall>k<nSpecies pub. spGlobalIndexVCS pub ! k < length m0 \<longrightarrow>
           dEq (moleFractions pub ! k) (moleFractions v ! k)"
    using r by simp
  show "\<forall>k<nSpecies pub. phiVarIndex pub = k \<longrightarrow>
           dEq (electricPotential pub) (molNum ! (spGlobalIndexVCS v ! k))"
    using r by simp
  show "dEq (totalMolesInert pub +
              (\<Sum>k\<leftarrow>[0..<nSpecies pub].
                 if speciesUnknownType pub ! k \<noteq> VCS_SPECIES_TYPE_INTERFACIALVOLTAGE
                 then ws ! (spGlobalIndexVCS pub ! k) else 0))
             (totalMoles v)"
    using r c by simp
qed

lemma update_phases_Inr:
  "update_phases dEq setMFS molNum ws vpl is (mfs, pubs) = Inr (mfs', pubs') \<Longrightarrow>
   distinct is \<Longrightarrow> \<forall>i\<in>set is. i < length pubs \<Longrightarrow>
   length mfs' = length mfs \<and> length pubs' = length pubs \<and>
   (\<forall>j. j \<notin> set is \<longrightarrow> pubs' ! j = pubs ! j) \<and>
   (\<forall>iph\<in>set is. \<exists>m0 m1. length m0 = length mfs \<and>
        update_phase dEq setMFS molNum ws (vpl ! iph) (pubs ! iph) m0 = Inr (m1, pubs' ! iph))"
proof (induction "is" arbitrary: mfs pubs)
  case Nil
  then show ?case by simp
next
  case (Cons i0 "is")
  from Cons.prems(1) obtain m1 p1 where
    up: "update_phase dEq setMFS molNum ws (vpl ! i0) (pubs ! i0) mfs = Inr (m1, p1)"
    and rec: "update_phases dEq setMFS molNum ws vpl is (m1, pubs[i0 := p1]) = Inr (mfs', pubs')"
    by (auto split: sum.splits)
  have d: "distinct is" "i0 \<notin> set is" using Cons.prems(2) by simp_all
  have r: "\<forall>i\<in>set is. i < length (pubs[i0 := p1])" using Cons.prems(3) by simp
  have lm: "length m1 = length mfs" using update_phase_Inr(2) [OF up] .
  from Cons.IH [OF rec d(1) r] have
    l1: "length mfs' = length m1" and l2: "length pubs' = length pubs" and
    o: "\<forall>j. j \<notin> set is \<longrightarrow> pubs' ! j = pubs[i0 := p1] ! j" and
    e: "\<forall>iph\<in>set is. \<exists>m0 m1'. length m0 = length m1 \<and>
        update_phase dEq setMFS molNum ws (vpl ! iph) (pubs[i0 := p1] ! iph) m0
          = Inr (m1', pubs' ! iph)"
    by simp_all
  have i0: "pubs' ! i0 = p1" using o d(2) Cons.prems(3) by simp
  have "\<forall>iph\<in>set (i0 # is). \<exists>m0 m1. length m0 = length mfs \<and>
        update_phase dEq setMFS molNum ws (vpl ! iph) (pubs ! iph) m0 = Inr (m1, pubs' ! iph)"
  proof
    fix iph assume "iph \<in> set (i0 # is)"
    then consider "iph = i0" | "iph \<in> set is" "iph \<noteq> i0" using d(2) by auto
    then show "\<exists>m0 m1. length m0 = length mfs \<and>
        update_phase dEq setMFS molNum ws (vpl ! iph) (pubs ! iph) m0 = Inr (m1, pubs' ! iph)"
    proof cases
      case 1
      then show ?thesis using up i0 by blast
    next
      case 2
      have same: "pubs[i0 := p1] ! iph = pubs ! iph" using 2(2) by simp
      from e 2(1) obtain m0 m1' where "length m0 = length m1"
        "update_phase dEq setMFS molNum ws (vpl ! iph) (pubs[i0 := p1] ! iph) m0
          = Inr (m1', pubs' ! iph)"
        by blast
      then show ?thesis unfolding same lm by blast
    qed
  qed
  moreover have "\<forall>j. j \<notin> set (i0 # is) \<longrightarrow> pubs' ! j = pubs ! j"
    using o by (auto simp: nth_list_update_total)
  moreover have "length mfs' = length mfs" using l1 lm by simp
  ultimately show ?case using l2 by blast
qed

lemma check_phase_species_Inl:
  "check_phase_species dEq molNum ws pub v ks st = Inl e \<Longrightarrow>
   (\<exists>a b. e = InconsistentVoltage a b) \<or> (\<exists>a b. e = InconsistentMoleFraction a b)"
proof (induction ks arbitrary: st)
  case Nil
  then show ?case by simp
next
  case (Cons k ks)
  obtain mfs sm where st: "st = (mfs, sm)" by (cases st)
  from Cons.prems Cons.IH show ?case
    unfolding st by (auto simp: Let_def split: if_splits)
qed

lemma update_phase_Inl:
  assumes "update_phase dEq setMFS molNum ws v pub0 m0 = Inl e"
    and "setMFS (totalMoles v) (moleFractions v) (publish_phase v pub0) = Inr pub"
  shows "(\<exists>a b. e = InconsistentVoltage a b) \<or> (\<exists>a b. e = InconsistentMoleFraction a b) \<or>
         (\<exists>a b. e = InconsistentTotalMoles a b)"
  using assms check_phase_species_Inl [of dEq molNum ws pub v "[0..<nSpecies pub]"
          "(m0, totalMolesInert pub)" e]
  by (auto simp: update_phase_def split: sum.splits if_splits)

lemma vcs_prob_update_Inr:
  assumes "vcs_prob_update dEq setMFS s = Inr (r, s')"
  obtains mfs pubs where
    "update_phases dEq setMFS (m_molNumSpecies_old s) (fst (snd (update_all_species s)))
       (m_VolPhaseList s) [0..<m_numPhases s] (mf s, VPhaseList s) = Inr (mfs, pubs)"
    "VPhaseList s' = pubs" "mf s' = mfs" "w s' = fst (snd (update_all_species s))"
    "r = VCS_SUCCESS"
  using assms by (auto simp: vcs_prob_update_def Let_def split: sum.splits)

lemma vcs_prob_update_phase:
  assumes "vcs_prob_update dEq setMFS s = Inr (r, s')"
    and "iph < m_numPhases s" and "m_numPhases s \<le> length (VPhaseList s)"
  obtains m0 m1 where "length m0 = length (mf s)"
    "update_phase dEq setMFS (m_molNumSpecies_old s) (w s') (m_VolPhaseList s ! iph)
       (VPhaseList s ! iph) m0 = Inr (m1, VPhaseList s' ! iph)"
proof -
  from assms(1) obtain mfs pubs where
    u: "update_phases dEq setMFS (m_molNumSpecies_old s) (fst (snd (update_all_species s)))
       (m_VolPhaseList s) [0..<m_numPhases s] (mf s, VPhaseList s) = Inr (mfs, pubs)"
    and p: "VPhaseList s' = pubs" and ww: "w s' = fst (snd (update_all_species s))"
    by (rule vcs_prob_update_Inr)
  have r: "\<forall>i\<in>set [0..<m_numPhases s]. i < length (VPhaseList s)" using assms(3) by simp
  have "iph \<in> set [0..<m_numPhases s]" using assms(2) by simp
  with update_phases_Inr [OF u distinct_upt r] obtain m0 m1 where
    "length m0 = length (mf s)"
    "update_phase dEq setMFS (m_molNumSpecies_old s) (fst (snd (update_all_species s)))
       (m_VolPhaseList s ! iph) (VPhaseList s ! iph) m0 = Inr (m1, pubs ! iph)"
    by blast
  then show thesis using that p ww by simp
qed

text \<open>
  C7: let \<open>pubPhase\<close> be the public phase \<open>iph\<close> as \<^verbatim>\<open>setMoleFractionsState\<close> leaves it, and
  \<open>k\<close> one of its species. If the written-back mole fraction of \<open>k\<close> fails the equality
  test against the private phase's mole fraction, or \<open>k\<close> carries the voltage unknown and
  the phase's electric potential fails the test against the solver's mole number entry of
  that species, or the inert moles plus the written-back moles of the mole-number species
  fail the test against the private phase's total moles, then \<^verbatim>\<open>vcs_prob_update\<close> throws.
  When it returns, the public phase is \<open>pubPhase\<close>, unchanged by the checks, and the three
  tests hold. An error of the checks of the phase is one of the three inconsistency
  errors. The equality test is \<^verbatim>\<open>vcs_doubleEqual\<close>, the parameter \<open>dEq\<close>.
\<close>

theorem C7_cross_checks:
  assumes "iph < m_numPhases s" and "m_numPhases s \<le> length (VPhaseList s)"
    and "setMFS (totalMoles (m_VolPhaseList s ! iph)) (moleFractions (m_VolPhaseList s ! iph))
           (publish_phase (m_VolPhaseList s ! iph) (VPhaseList s ! iph)) = Inr pubPhase"
    and "k < nSpecies pubPhase" and "spGlobalIndexVCS pubPhase ! k < length (mf s)"
  shows "(\<not> dEq (moleFractions pubPhase ! k) (moleFractions (m_VolPhaseList s ! iph) ! k)
            \<longrightarrow> (\<exists>e. vcs_prob_update dEq setMFS s = Inl e)) \<and>
         (phiVarIndex pubPhase = k \<and>
          \<not> dEq (electricPotential pubPhase)
                 (m_molNumSpecies_old s ! (spGlobalIndexVCS (m_VolPhaseList s ! iph) ! k))
            \<longrightarrow> (\<exists>e. vcs_prob_update dEq setMFS s = Inl e)) \<and>
         (\<not> dEq (totalMolesInert pubPhase +
                  (\<Sum>k\<leftarrow>[0..<nSpecies pubPhase].
                     if speciesUnknownType pubPhase ! k \<noteq> VCS_SPECIES_TYPE_INTERFACIALVOLTAGE
                     then fst (snd (update_all_species s)) ! (spGlobalIndexVCS pubPhase ! k)
                     else 0))
                 (totalMoles (m_VolPhaseList s ! iph))
            \<longrightarrow> (\<exists>e. vcs_prob_update dEq setMFS s = Inl e)) \<and>
         (vcs_prob_update dEq setMFS s = Inr (r, s') \<longrightarrow>
            VPhaseList s' ! iph = pubPhase \<and>
            w s' = fst (snd (update_all_species s)) \<and>
            dEq (moleFractions pubPhase ! k) (moleFractions (m_VolPhaseList s ! iph) ! k) \<and>
            (phiVarIndex pubPhase = k \<longrightarrow>
               dEq (electricPotential pubPhase)
                   (m_molNumSpecies_old s ! (spGlobalIndexVCS (m_VolPhaseList s ! iph) ! k))) \<and>
            dEq (totalMolesInert pubPhase +
                 (\<Sum>k\<leftarrow>[0..<nSpecies pubPhase].
                    if speciesUnknownType pubPhase ! k \<noteq> VCS_SPECIES_TYPE_INTERFACIALVOLTAGE
                    then w s' ! (spGlobalIndexVCS pubPhase ! k) else 0))
                (totalMoles (m_VolPhaseList s ! iph))) \<and>
         (\<forall>m0 e. update_phase dEq setMFS (m_molNumSpecies_old s)
                    (fst (snd (update_all_species s))) (m_VolPhaseList s ! iph)
                    (VPhaseList s ! iph) m0 = Inl e \<longrightarrow>
                  (\<exists>a b. e = InconsistentVoltage a b) \<or>
                  (\<exists>a b. e = InconsistentMoleFraction a b) \<or>
                  (\<exists>a b. e = InconsistentTotalMoles a b))"
proof -
  let ?v = "m_VolPhaseList s ! iph"
  let ?ws = "fst (snd (update_all_species s))"
  have ok: "VPhaseList y ! iph = pubPhase \<and> w y = ?ws \<and>
            dEq (moleFractions pubPhase ! k) (moleFractions ?v ! k) \<and>
            (phiVarIndex pubPhase = k \<longrightarrow>
               dEq (electricPotential pubPhase)
                   (m_molNumSpecies_old s ! (spGlobalIndexVCS ?v ! k))) \<and>
            dEq (totalMolesInert pubPhase +
                 (\<Sum>k\<leftarrow>[0..<nSpecies pubPhase].
                    if speciesUnknownType pubPhase ! k \<noteq> VCS_SPECIES_TYPE_INTERFACIALVOLTAGE
                    then ?ws ! (spGlobalIndexVCS pubPhase ! k) else 0))
                (totalMoles ?v)"
    if fin: "vcs_prob_update dEq setMFS s = Inr (x, y)" for x y
  proof -
    from fin have ww: "w y = ?ws" by (rule vcs_prob_update_Inr)
    from vcs_prob_update_phase [OF fin assms(1,2)] obtain m0 m1 where
      l: "length m0 = length (mf s)" and
      u: "update_phase dEq setMFS (m_molNumSpecies_old s) (w y) ?v (VPhaseList s ! iph) m0
            = Inr (m1, VPhaseList y ! iph)"
      by blast
    note f = update_phase_Inr [OF u [unfolded ww]]
    have p: "VPhaseList y ! iph = pubPhase" using f(1) assms(3) by simp
    have g1: "dEq (moleFractions pubPhase ! k) (moleFractions ?v ! k)"
      using f(3) assms(4,5) l unfolding p by simp
    have g2: "phiVarIndex pubPhase = k \<longrightarrow>
               dEq (electricPotential pubPhase)
                   (m_molNumSpecies_old s ! (spGlobalIndexVCS ?v ! k))"
      using f(4) assms(4) unfolding p by blast
    have g3: "dEq (totalMolesInert pubPhase +
                 (\<Sum>k\<leftarrow>[0..<nSpecies pubPhase].
                    if speciesUnknownType pubPhase ! k \<noteq> VCS_SPECIES_TYPE_INTERFACIALVOLTAGE
                    then ?ws ! (spGlobalIndexVCS pubPhase ! k) else 0))
                (totalMoles ?v)"
      using f(5) unfolding p .
    show ?thesis using p ww g1 g2 g3 by blast
  qed
  have fail: "\<exists>e. vcs_prob_update dEq setMFS s = Inl e"
    if "\<And>x y. vcs_prob_update dEq setMFS s \<noteq> Inr (x, y)"
  proof (rule sum_not_Inr_is_Inl)
    fix z show "vcs_prob_update dEq setMFS s \<noteq> Inr z" using that [of "fst z" "snd z"] by simp
  qed
  have c1: "\<exists>e. vcs_prob_update dEq setMFS s = Inl e"
    if "\<not> dEq (moleFractions pubPhase ! k) (moleFractions ?v ! k)"
    using that ok by (intro fail) blast
  have c2: "\<exists>e. vcs_prob_update dEq setMFS s = Inl e"
    if "phiVarIndex pubPhase = k \<and>
        \<not> dEq (electricPotential pubPhase) (m_molNumSpecies_old s ! (spGlobalIndexVCS ?v ! k))"
    using that ok by (intro fail) blast
  have c3: "\<exists>e. vcs_prob_update dEq setMFS s = Inl e"
    if "\<not> dEq (totalMolesInert pubPhase +
                 (\<Sum>k\<leftarrow>[0..<nSpecies pubPhase].
                    if speciesUnknownType pubPhase ! k \<noteq> VCS_SPECIES_TYPE_INTERFACIALVOLTAGE
                    then ?ws ! (spGlobalIndexVCS pubPhase ! k) else 0))
                (totalMoles ?v)"
    using that ok by (intro fail) blast
  have c4: "vcs_prob_update dEq setMFS s = Inr (r, s') \<longrightarrow>
            VPhaseList s' ! iph = pubPhase \<and> w s' = ?ws \<and>
            dEq (moleFractions pubPhase ! k) (moleFractions ?v ! k) \<and>
            (phiVarIndex pubPhase = k \<longrightarrow>
               dEq (electricPotential pubPhase)
                   (m_molNumSpecies_old s ! (spGlobalIndexVCS ?v ! k))) \<and>
            dEq (totalMolesInert pubPhase +
                 (\<Sum>k\<leftarrow>[0..<nSpecies pubPhase].
                    if speciesUnknownType pubPhase ! k \<noteq> VCS_SPECIES_TYPE_INTERFACIALVOLTAGE
                    then w s' ! (spGlobalIndexVCS pubPhase ! k) else 0))
                (totalMoles ?v)"
  proof
    assume fin: "vcs_prob_update dEq setMFS s = Inr (r, s')"
    note o = ok [OF fin]
    have ww: "w s' = ?ws" using o by blast
    show "VPhaseList s' ! iph = pubPhase \<and> w s' = ?ws \<and>
            dEq (moleFractions pubPhase ! k) (moleFractions ?v ! k) \<and>
            (phiVarIndex pubPhase = k \<longrightarrow>
               dEq (electricPotential pubPhase)
                   (m_molNumSpecies_old s ! (spGlobalIndexVCS ?v ! k))) \<and>
            dEq (totalMolesInert pubPhase +
                 (\<Sum>k\<leftarrow>[0..<nSpecies pubPhase].
                    if speciesUnknownType pubPhase ! k \<noteq> VCS_SPECIES_TYPE_INTERFACIALVOLTAGE
                    then w s' ! (spGlobalIndexVCS pubPhase ! k) else 0))
                (totalMoles ?v)"
      unfolding ww using o by blast
  qed
  have c5: "\<forall>m0 e. update_phase dEq setMFS (m_molNumSpecies_old s) ?ws ?v
                    (VPhaseList s ! iph) m0 = Inl e \<longrightarrow>
                  (\<exists>a b. e = InconsistentVoltage a b) \<or>
                  (\<exists>a b. e = InconsistentMoleFraction a b) \<or>
                  (\<exists>a b. e = InconsistentTotalMoles a b)"
  proof (intro allI impI)
    fix m0 e
    assume "update_phase dEq setMFS (m_molNumSpecies_old s) ?ws ?v (VPhaseList s ! iph) m0 = Inl e"
    then show "(\<exists>a b. e = InconsistentVoltage a b) \<or>
                  (\<exists>a b. e = InconsistentMoleFraction a b) \<or>
                  (\<exists>a b. e = InconsistentTotalMoles a b)"
      using assms(3) by (rule update_phase_Inl)
  qed
  show ?thesis using c1 c2 c3 c4 c5 by blast
qed

text \<open>
  C10: for a species \<open>i\<close> that \<^verbatim>\<open>m_speciesMapIndex\<close> maps from the one position \<open>j\<close>, the
  written-back \<^verbatim>\<open>w[i]\<close> is \<^verbatim>\<open>m_molNumSpecies_old[j]\<close> when the unknown is a mole number
  and 0 when it is the interfacial voltage; on return \<^verbatim>\<open>w\<close> is that vector, and every
  public phase has been handed the private phase's electric potential before its mole
  fractions are set.
\<close>

theorem C10_write_back:
  assumes "i < m_nsp s" and "i < length (w s)"
    and "j < m_nsp s" and "m_speciesMapIndex s ! j = i"
    and "\<forall>j'<m_nsp s. m_speciesMapIndex s ! j' = i \<longrightarrow> j' = j"
  shows "(SpeciesUnknownType s ! i = VCS_SPECIES_TYPE_MOLNUM \<longrightarrow>
            fst (snd (update_all_species s)) ! i = m_molNumSpecies_old s ! j) \<and>
         (SpeciesUnknownType s ! i = VCS_SPECIES_TYPE_INTERFACIALVOLTAGE \<longrightarrow>
            fst (snd (update_all_species s)) ! i = 0) \<and>
         (vcs_prob_update dEq setMFS s = Inr (r, s') \<longrightarrow>
            w s' = fst (snd (update_all_species s)) \<and>
            (\<forall>iph<m_numPhases s. m_numPhases s \<le> length (VPhaseList s) \<longrightarrow>
               electricPotential (publish_phase (m_VolPhaseList s ! iph) (VPhaseList s ! iph))
                 = electricPotential (m_VolPhaseList s ! iph) \<and>
               setMFS (totalMoles (m_VolPhaseList s ! iph)) (moleFractions (m_VolPhaseList s ! iph))
                 (publish_phase (m_VolPhaseList s ! iph) (VPhaseList s ! iph))
                 = Inr (VPhaseList s' ! iph)))"
proof -
  have "find_species (m_speciesMapIndex s) i [0..<m_nsp s] 0 = j"
  proof (rule find_species_unique)
    show "j \<in> set [0..<m_nsp s]" using assms(3) by simp
    show "m_speciesMapIndex s ! j = i" by (rule assms(4))
    fix j' assume "j' \<in> set [0..<m_nsp s]" "m_speciesMapIndex s ! j' = i"
    then show "j' = j" using assms(5) by simp
  qed
  with update_all_species_w [OF assms(1,2)]
  have a: "fst (snd (update_all_species s)) ! i =
     (if SpeciesUnknownType s ! i \<noteq> VCS_SPECIES_TYPE_INTERFACIALVOLTAGE
      then m_molNumSpecies_old s ! j else 0)"
    by simp
  have b: "w s' = fst (snd (update_all_species s)) \<and>
            (\<forall>iph<m_numPhases s. m_numPhases s \<le> length (VPhaseList s) \<longrightarrow>
               electricPotential (publish_phase (m_VolPhaseList s ! iph) (VPhaseList s ! iph))
                 = electricPotential (m_VolPhaseList s ! iph) \<and>
               setMFS (totalMoles (m_VolPhaseList s ! iph)) (moleFractions (m_VolPhaseList s ! iph))
                 (publish_phase (m_VolPhaseList s ! iph) (VPhaseList s ! iph))
                 = Inr (VPhaseList s' ! iph))"
    if fin: "vcs_prob_update dEq setMFS s = Inr (r, s')"
  proof (intro conjI allI impI)
    from fin show "w s' = fst (snd (update_all_species s))" by (rule vcs_prob_update_Inr)
  next
    fix iph assume "iph < m_numPhases s" "m_numPhases s \<le> length (VPhaseList s)"
    show "electricPotential (publish_phase (m_VolPhaseList s ! iph) (VPhaseList s ! iph))
                 = electricPotential (m_VolPhaseList s ! iph)"
      by (simp add: publish_phase_def setElectricPotential_def)
  next
    fix iph assume h: "iph < m_numPhases s" "m_numPhases s \<le> length (VPhaseList s)"
    from vcs_prob_update_phase [OF fin h] obtain m0 m1 where
      "update_phase dEq setMFS (m_molNumSpecies_old s) (w s') (m_VolPhaseList s ! iph)
         (VPhaseList s ! iph) m0 = Inr (m1, VPhaseList s' ! iph)"
      by blast
    then show "setMFS (totalMoles (m_VolPhaseList s ! iph)) (moleFractions (m_VolPhaseList s ! iph))
                 (publish_phase (m_VolPhaseList s ! iph) (VPhaseList s ! iph))
                 = Inr (VPhaseList s' ! iph)"
      by (rule update_phase_Inr(1))
  qed
  show ?thesis using a b by simp
qed

lemmas update_defs =
  vcs_prob_update_def update_all_species_def update_species_def update_phase_def
  publish_phase_def setElectricPotential_def setTotalMoles_def setTotalMolesInert_def
  approx_equal_def store_mole_fractions_def VCS_SUCCESS_def Let_def upt_rec

text \<open>
  C7 on the concrete problem: a voltage entry of 7 against a potential of 1/2 is fatal; the
  consistent problem is written back.
\<close>

theorem C7_cross_checks_witness:
  "(\<exists>e. vcs_prob_update approx_equal store_mole_fractions
          (example_solver\<lparr>m_molNumSpecies_old := [1, 3, 7]\<rparr>) = Inl e) \<and>
   (\<exists>r s'. vcs_prob_update approx_equal store_mole_fractions example_solver = Inr (r, s') \<and>
           approx_equal (moleFractions (VPhaseList s' ! 0) ! 1) (3 / 4))"
proof
  let ?s = "example_solver\<lparr>m_molNumSpecies_old := [1, 3, 7]\<rparr>"
  let ?p = "(publish_phase (m_VolPhaseList ?s ! 1) (VPhaseList ?s ! 1))
              \<lparr>moleFractions := moleFractions (m_VolPhaseList ?s ! 1)\<rparr>"
  have h: "1 < m_numPhases ?s" "m_numPhases ?s \<le> length (VPhaseList ?s)"
    "store_mole_fractions (totalMoles (m_VolPhaseList ?s ! 1))
       (moleFractions (m_VolPhaseList ?s ! 1))
       (publish_phase (m_VolPhaseList ?s ! 1) (VPhaseList ?s ! 1)) = Inr ?p"
    "0 < nSpecies ?p" "spGlobalIndexVCS ?p ! 0 < length (mf ?s)"
    by (simp_all add: example_defs store_mole_fractions_def publish_phase_def
          setElectricPotential_def setTotalMoles_def setTotalMolesInert_def)
  have bad: "phiVarIndex ?p = 0 \<and>
     \<not> approx_equal (electricPotential ?p)
          (m_molNumSpecies_old ?s ! (spGlobalIndexVCS (m_VolPhaseList ?s ! 1) ! 0))"
    by (simp add: example_defs publish_phase_def approx_equal_def
          setElectricPotential_def setTotalMoles_def setTotalMolesInert_def)
  from C7_cross_checks [where setMFS = store_mole_fractions and s = ?s and iph = 1
         and pubPhase = ?p and k = 0 and dEq = approx_equal, OF h] bad
  show "\<exists>e. vcs_prob_update approx_equal store_mole_fractions ?s = Inl e"
    by blast
next
  let ?s = "example_solver"
  let ?p = "(publish_phase (m_VolPhaseList ?s ! 0) (VPhaseList ?s ! 0))
              \<lparr>moleFractions := moleFractions (m_VolPhaseList ?s ! 0)\<rparr>"
  have "\<exists>r s'. vcs_prob_update approx_equal store_mole_fractions ?s = Inr (r, s')"
    by (simp add: update_defs example_defs)
  then obtain r s' where
    fin: "vcs_prob_update approx_equal store_mole_fractions ?s = Inr (r, s')"
    by blast
  have h: "0 < m_numPhases ?s" "m_numPhases ?s \<le> length (VPhaseList ?s)"
    "store_mole_fractions (totalMoles (m_VolPhaseList ?s ! 0))
       (moleFractions (m_VolPhaseList ?s ! 0))
       (publish_phase (m_VolPhaseList ?s ! 0) (VPhaseList ?s ! 0)) = Inr ?p"
    "1 < nSpecies ?p" "spGlobalIndexVCS ?p ! 1 < length (mf ?s)"
    by (simp_all add: example_defs store_mole_fractions_def publish_phase_def
          setElectricPotential_def setTotalMoles_def setTotalMolesInert_def)
  from C7_cross_checks [where setMFS = store_mole_fractions and s = ?s and iph = 0
         and pubPhase = ?p and k = 1 and dEq = approx_equal and r = r and s' = s', OF h] fin
  have "VPhaseList s' ! 0 = ?p"
    and "approx_equal (moleFractions ?p ! 1) (moleFractions (m_VolPhaseList ?s ! 0) ! 1)"
    by blast+
  then have "approx_equal (moleFractions (VPhaseList s' ! 0) ! 1) (3 / 4)"
    by (simp add: example_defs)
  with fin show "\<exists>r s'. vcs_prob_update approx_equal store_mole_fractions ?s = Inr (r, s') \<and>
           approx_equal (moleFractions (VPhaseList s' ! 0) ! 1) (3 / 4)"
    by blast
qed

text \<open>
  C10 on the concrete problem: species 0 is written back as 1 kmol, the voltage species 2
  as 0, and the electrode phase carries the potential 1/2.
\<close>

theorem C10_write_back_witness:
  "fst (snd (update_all_species example_solver)) ! 0 = 1 \<and>
   fst (snd (update_all_species example_solver)) ! 2 = 0 \<and>
   (\<exists>r s'. vcs_prob_update approx_equal store_mole_fractions example_solver = Inr (r, s') \<and>
           w s' ! 2 = 0 \<and> electricPotential (VPhaseList s' ! 1) = 1 / 2)"
proof -
  let ?s = "example_solver"
  have smi: "m_speciesMapIndex ?s = [0, 1, 2]" "m_nsp ?s = 3" by (simp_all add: example_defs)
  have u: "\<forall>j'<m_nsp ?s. m_speciesMapIndex ?s ! j' = i \<longrightarrow> j' = i" for i
    unfolding smi by (auto simp: less_Suc_eq numeral_3_eq_3)
  have h0: "0 < m_nsp ?s" "0 < length (w ?s)" "0 < m_nsp ?s" "m_speciesMapIndex ?s ! 0 = 0"
    by (simp_all add: example_defs)
  have h2: "2 < m_nsp ?s" "2 < length (w ?s)" "2 < m_nsp ?s" "m_speciesMapIndex ?s ! 2 = 2"
    by (simp_all add: example_defs)
  have "\<exists>r s'. vcs_prob_update approx_equal store_mole_fractions ?s = Inr (r, s')"
    by (simp add: update_defs example_defs)
  then obtain r s' where
    fin: "vcs_prob_update approx_equal store_mole_fractions ?s = Inr (r, s')"
    by blast
  have ty: "SpeciesUnknownType ?s ! 0 = VCS_SPECIES_TYPE_MOLNUM"
    "SpeciesUnknownType ?s ! 2 = VCS_SPECIES_TYPE_INTERFACIALVOLTAGE"
    "m_molNumSpecies_old ?s ! 0 = 1"
    by (simp_all add: example_defs)
  have ph: "1 < m_numPhases ?s" "m_numPhases ?s \<le> length (VPhaseList ?s)"
    by (simp_all add: example_defs)
  note t0 = C10_write_back [OF h0 u [of 0], of approx_equal store_mole_fractions r s']
  note t2 = C10_write_back [OF h2 u [of 2], of approx_equal store_mole_fractions r s']
  have a: "fst (snd (update_all_species ?s)) ! 0 = 1"
    using t0 ty(1,3) by simp
  have b: "fst (snd (update_all_species ?s)) ! 2 = 0"
    using t2 ty(2) by blast
  have c: "w s' = fst (snd (update_all_species ?s))"
    using t2 fin by blast
  have d: "store_mole_fractions (totalMoles (m_VolPhaseList ?s ! 1))
              (moleFractions (m_VolPhaseList ?s ! 1))
              (publish_phase (m_VolPhaseList ?s ! 1) (VPhaseList ?s ! 1))
              = Inr (VPhaseList s' ! 1)"
    using t2 fin ph by blast
  from d have eq: "VPhaseList s' ! 1 =
      (publish_phase (m_VolPhaseList ?s ! 1) (VPhaseList ?s ! 1))
        \<lparr>moleFractions := moleFractions (m_VolPhaseList ?s ! 1)\<rparr>"
    by (simp add: store_mole_fractions_def)
  have e: "electricPotential (VPhaseList s' ! 1) = 1 / 2"
    unfolding eq
    by (simp add: publish_phase_def setElectricPotential_def setTotalMoles_def
          setTotalMolesInert_def example_defs)
  have "w s' ! 2 = 0" using b c by simp
  with a b e fin show ?thesis by blast
qed

section \<open>Properties of installReactionArrays\<close>

lemma find_char_takeWhile:
  "find_char c s = (if c \<in> set s then Some (length (takeWhile (\<lambda>x. x \<noteq> c) s)) else None)"
  by (induction s) auto

lemma rxn_in_bounds_spec: "rxn_in_bounds (include_bounds ii) r = spec_selects ii r"
proof (cases "attrib ii ''max'' = attrib ii ''min'' \<and> CHR ''*'' \<in> set (attrib ii ''min'')")
  case True
  then show ?thesis
    by (simp add: rxn_in_bounds_def include_bounds_def spec_selects_def substr0_def
          find_char_takeWhile Let_def)
next
  case False
  then show ?thesis
    by (auto simp: rxn_in_bounds_def include_bounds_def spec_selects_def substr0_def
          find_char_takeWhile Let_def)
qed

lemma install_include_added:
  "kin_added (fst (install_include allrxns ii (kin, itot))) =
     kin_added kin @ filter (spec_selects ii) allrxns"
proof -
  have "kin_added (fst (fold (\<lambda>r (kin, itot). if rxn_in_bounds (include_bounds ii) r
                            then (addReaction r kin, itot + 1) else (kin, itot)) rs (kin, itot))) =
        kin_added kin @ filter (spec_selects ii) rs" for rs
    by (induction rs arbitrary: kin itot)
       (simp_all add: rxn_in_bounds_spec addReaction_def)
  then show ?thesis by (simp add: install_include_def)
qed

lemma install_includes_added:
  "kin_added (fst (fold (install_include allrxns) incl (kin, itot))) =
     kin_added kin @ concat (map (\<lambda>ii. filter (spec_selects ii) allrxns) incl)"
proof (induction incl arbitrary: kin itot)
  case Nil
  then show ?case by simp
next
  case (Cons ii incl)
  obtain kin1 itot1 where s: "install_include allrxns ii (kin, itot) = (kin1, itot1)"
    by (cases "install_include allrxns ii (kin, itot)")
  have k1: "kin_added kin1 = kin_added kin @ filter (spec_selects ii) allrxns"
    using install_include_added [of allrxns ii kin itot] s by simp
  show ?case
    using Cons.IH [of kin1 itot1] by (simp add: s k1)
qed

lemma install_all_added:
  "kin_added (fst (fold (\<lambda>r (k, n). (addReaction r k, n + 1)) rs (kin, itot))) =
     kin_added kin @ rs"
  by (induction rs arbitrary: kin itot) (simp_all add: addReaction_def)

lemma apply_skip_added: "kin_added (apply_skip rxns kin) = kin_added kin"
  by (simp add: apply_skip_def Let_def)

lemma install_array_added:
  "kin_added (fst (install_array g rxns (kin, itot))) =
     kin_added kin @
       (if getChildren rxns ''include'' = []
        then getChildren (g (attrib rxns ''datasrc'')) ''reaction''
        else concat (map (\<lambda>ii. filter (spec_selects ii)
                                  (getChildren (g (attrib rxns ''datasrc'')) ''reaction''))
                      (getChildren rxns ''include'')))"
  by (simp add: install_array_def Let_def install_all_added install_includes_added
        apply_skip_added)

lemma install_arrays_added:
  "kin_added (fst (fold (install_array g) rarrays (kin, itot))) =
     kin_added kin @
       concat (map (\<lambda>rxns.
         if getChildren rxns ''include'' = []
         then getChildren (g (attrib rxns ''datasrc'')) ''reaction''
         else concat (map (\<lambda>ii. filter (spec_selects ii)
                                   (getChildren (g (attrib rxns ''datasrc'')) ''reaction''))
                       (getChildren rxns ''include''))) rarrays)"
proof (induction rarrays arbitrary: kin itot)
  case Nil
  then show ?case by simp
next
  case (Cons rxns rarrays)
  obtain kin1 itot1 where s: "install_array g rxns (kin, itot) = (kin1, itot1)"
    by (cases "install_array g rxns (kin, itot)")
  have k1: "kin_added kin1 = kin_added kin @
       (if getChildren rxns ''include'' = []
        then getChildren (g (attrib rxns ''datasrc'')) ''reaction''
        else concat (map (\<lambda>ii. filter (spec_selects ii)
                                  (getChildren (g (attrib rxns ''datasrc'')) ''reaction''))
                      (getChildren rxns ''include'')))"
    using install_array_added [of g rxns kin itot] s by simp
  show ?case
    using Cons.IH [of kin1 itot1] by (simp add: s k1)
qed

lemma installReactionArrays_added:
  "kin_added (snd (installReactionArrays g p kin c)) =
     kin_added kin @
       concat (map (\<lambda>rxns.
         if getChildren rxns ''include'' = []
         then getChildren (g (attrib rxns ''datasrc'')) ''reaction''
         else concat (map (\<lambda>ii. filter (spec_selects ii)
                                   (getChildren (g (attrib rxns ''datasrc'')) ''reaction''))
                       (getChildren rxns ''include''))) (getChildren p ''reactionArray''))"
  by (simp add: installReactionArrays_def Let_def install_arrays_added)

text \<open>
  C8: for one reactionArray element, the reactions handed to the kinetics manager are
  appended to those it holds; with include directives, a reaction of the datasrc node is
  among them exactly when some directive selects it by the lexical test of the
  specification (\<open>spec_selects\<close>: both bounds and the id cut at the first \<open>*\<close> when
  \<open>min = max\<close> contains one); without include directives they are all the reactions of
  the datasrc node. For the whole routine the same holds over all reactionArray
  children.
\<close>

theorem C8_include_selection:
  "(\<exists>new. kin_added (fst (install_array g rxns (kin, itot))) = kin_added kin @ new \<and>
     (getChildren rxns ''include'' \<noteq> [] \<longrightarrow>
        (\<forall>r. r \<in> set new \<longleftrightarrow>
             r \<in> set (getChildren (g (attrib rxns ''datasrc'')) ''reaction'') \<and>
             (\<exists>ii\<in>set (getChildren rxns ''include''). spec_selects ii r))) \<and>
     (getChildren rxns ''include'' = [] \<longrightarrow>
        new = getChildren (g (attrib rxns ''datasrc'')) ''reaction'')) \<and>
   (\<forall>r. r \<in> set (kin_added (snd (installReactionArrays g p kin c))) \<longleftrightarrow>
        r \<in> set (kin_added kin) \<or>
        (\<exists>arr\<in>set (getChildren p ''reactionArray'').
           r \<in> set (getChildren (g (attrib arr ''datasrc'')) ''reaction'') \<and>
           (getChildren arr ''include'' = [] \<or>
            (\<exists>ii\<in>set (getChildren arr ''include''). spec_selects ii r))))"
proof
  show "\<exists>new. kin_added (fst (install_array g rxns (kin, itot))) = kin_added kin @ new \<and>
     (getChildren rxns ''include'' \<noteq> [] \<longrightarrow>
        (\<forall>r. r \<in> set new \<longleftrightarrow>
             r \<in> set (getChildren (g (attrib rxns ''datasrc'')) ''reaction'') \<and>
             (\<exists>ii\<in>set (getChildren rxns ''include''). spec_selects ii r))) \<and>
     (getChildren rxns ''include'' = [] \<longrightarrow>
        new = getChildren (g (attrib rxns ''datasrc'')) ''reaction'')"
  proof (cases "getChildren rxns ''include'' = []")
    case True
    then show ?thesis by (simp add: install_array_added)
  next
    case False
    let ?all = "getChildren (g (attrib rxns ''datasrc'')) ''reaction''"
    let ?new = "concat (map (\<lambda>ii. filter (spec_selects ii) ?all) (getChildren rxns ''include''))"
    have "kin_added (fst (install_array g rxns (kin, itot))) = kin_added kin @ ?new"
      using False by (simp add: install_array_added)
    moreover have "\<forall>r. r \<in> set ?new \<longleftrightarrow>
        r \<in> set ?all \<and> (\<exists>ii\<in>set (getChildren rxns ''include''). spec_selects ii r)"
      by auto
    ultimately show ?thesis using False by blast
  qed
  show "\<forall>r. r \<in> set (kin_added (snd (installReactionArrays g p kin c))) \<longleftrightarrow>
        r \<in> set (kin_added kin) \<or>
        (\<exists>arr\<in>set (getChildren p ''reactionArray'').
           r \<in> set (getChildren (g (attrib arr ''datasrc'')) ''reaction'') \<and>
           (getChildren arr ''include'' = [] \<or>
            (\<exists>ii\<in>set (getChildren arr ''include''). spec_selects ii r)))"
    unfolding installReactionArrays_added by (auto split: if_splits)
qed

text \<open>
  C8 on the mechanism file: the range from R1 to R3 takes R10 (lexically between the
  bounds) and leaves R5 out; the wildcard R1* leaves R2 out; no directive takes all four.
\<close>

theorem C8_include_selection_witness:
  "example_reaction ''R10'' \<in> set (kin_added (fst (install_array example_get_XML_Node
       (XML_Node ''reactionArray'' [(''datasrc'', ''#rxns'')] [example_include ''R1'' ''R3''])
       (example_kinetics, 0)))) \<and>
   example_reaction ''R5'' \<notin> set (kin_added (fst (install_array example_get_XML_Node
       (XML_Node ''reactionArray'' [(''datasrc'', ''#rxns'')] [example_include ''R1'' ''R3''])
       (example_kinetics, 0)))) \<and>
   example_reaction ''R2'' \<notin> set (kin_added (fst (install_array example_get_XML_Node
       (XML_Node ''reactionArray'' [(''datasrc'', ''#rxns'')] [example_include ''R1*'' ''R1*''])
       (example_kinetics, 0)))) \<and>
   kin_added (fst (install_array example_get_XML_Node
       (XML_Node ''reactionArray'' [(''datasrc'', ''#rxns'')] []) (example_kinetics, 0)))
     = [example_reaction ''R1'', example_reaction ''R10'', example_reaction ''R2'',
        example_reaction ''R5'']"
proof -
  let ?A = "\<lambda>incl. XML_Node ''reactionArray'' [(''datasrc'', ''#rxns'')] incl"
  have all: "getChildren (example_get_XML_Node (attrib (?A incl) ''datasrc'')) ''reaction'' =
      [example_reaction ''R1'', example_reaction ''R10'', example_reaction ''R2'',
       example_reaction ''R5'']" for incl
    by (simp add: getChildren_def attrib_def example_get_XML_Node_def example_reactionData_def
          example_reaction_def)
  have inc: "getChildren (?A [example_include lo hi]) ''include'' = [example_include lo hi]"
    for lo hi
    by (simp add: getChildren_def example_include_def)
  have none: "getChildren (?A []) ''include'' = []"
    by (simp add: getChildren_def)
  have sel: "spec_selects (example_include ''R1'' ''R3'') (example_reaction ''R10'')"
    "\<not> spec_selects (example_include ''R1'' ''R3'') (example_reaction ''R5'')"
    "\<not> spec_selects (example_include ''R1*'' ''R1*'') (example_reaction ''R2'')"
    by (simp_all add: spec_selects_def attrib_def example_include_def example_reaction_def)
  have e: "kin_added example_kinetics = []" by (simp add: example_kinetics_def)
  from C8_include_selection [of example_get_XML_Node "?A [example_include ''R1'' ''R3'']"
      example_kinetics 0, THEN conjunct1]
  have a: "example_reaction ''R10'' \<in> set (kin_added (fst (install_array example_get_XML_Node
       (?A [example_include ''R1'' ''R3'']) (example_kinetics, 0))))"
    and b: "example_reaction ''R5'' \<notin> set (kin_added (fst (install_array example_get_XML_Node
       (?A [example_include ''R1'' ''R3'']) (example_kinetics, 0))))"
    unfolding all inc e using sel(1,2) by auto
  from C8_include_selection [of example_get_XML_Node "?A [example_include ''R1*'' ''R1*'']"
      example_kinetics 0, THEN conjunct1]
  have c: "example_reaction ''R2'' \<notin> set (kin_added (fst (install_array example_get_XML_Node
       (?A [example_include ''R1*'' ''R1*'']) (example_kinetics, 0))))"
    unfolding all inc e using sel(3) by auto
  from C8_include_selection [of example_get_XML_Node "?A []" example_kinetics 0,
      THEN conjunct1]
  have d: "kin_added (fst (install_array example_get_XML_Node (?A []) (example_kinetics, 0)))
     = [example_reaction ''R1'', example_reaction ''R10'', example_reaction ''R2'',
        example_reaction ''R5'']"
    unfolding all none e by auto
  show ?thesis using a b c d by blast
qed

end
